theory Spec2Isabelle
  imports Main
begin

section \<open>Python values and the operations the reviewer applies to them\<close>

text \<open>
  The module \<^verbatim>\<open>multi_agent_reviewer.py\<close> post-processes the texts that six language-model
  agents leave in a session store. Everything it computes goes through values decoded by
  \<^verbatim>\<open>json.loads\<close>, which Python handles dynamically: a field may hold any JSON value, and
  \<^verbatim>\<open>len\<close>, iteration and \<^verbatim>\<open>set.update\<close> raise \<^verbatim>\<open>TypeError\<close> on the wrong kind of value.
  The model keeps this: a JSON value is a \<open>json\<close>, and every operation that can raise returns
  \<open>exn + 'a\<close> with \<open>Inl\<close> for the exception.

  Numbers are integers here; floating-point numbers are outside the model. A \<open>char\<close> stands for
  one character of a text (non-ASCII characters of a constant are written as their UTF-8 bytes).
  A dict is an association list read with \<open>map_of\<close>, so the first binding of a key is its value.
\<close>

datatype json =
    JNull
  | JBool bool
  | JInt int
  | JStr string
  | JArr "json list"
  | JObj "(string \<times> json) list"

datatype exn = JSONDecodeError | RecursionError | ValueError | AttributeError | TypeError

type_synonym dict = "(string \<times> json) list"

text \<open>\<^verbatim>\<open>d.get(k, default)\<close> on a dict.\<close>

definition get :: "dict \<Rightarrow> string \<Rightarrow> json \<Rightarrow> json" where
  "get d k dflt = (case map_of d k of Some v \<Rightarrow> v | None \<Rightarrow> dflt)"

text \<open>Truth value of a JSON value, as \<^verbatim>\<open>not x\<close> and \<^verbatim>\<open>if x\<close> see it.\<close>

fun truthy :: "json \<Rightarrow> bool" where
  "truthy JNull = False"
| "truthy (JBool b) = b"
| "truthy (JInt n) = (n \<noteq> 0)"
| "truthy (JStr s) = (s \<noteq> [])"
| "truthy (JArr xs) = (xs \<noteq> [])"
| "truthy (JObj kvs) = (kvs \<noteq> [])"

text \<open>\<^verbatim>\<open>len(x)\<close>: defined on strings, lists and dicts (number of keys), \<^verbatim>\<open>TypeError\<close> otherwise.\<close>

fun py_len :: "json \<Rightarrow> exn + nat" where
  "py_len (JStr s) = Inr (length s)"
| "py_len (JArr xs) = Inr (length xs)"
| "py_len (JObj kvs) = Inr (length (remdups (map fst kvs)))"
| "py_len JNull = Inl TypeError"
| "py_len (JBool b) = Inl TypeError"
| "py_len (JInt n) = Inl TypeError"

text \<open>
  The elements that iterating over a value produces: the items of a list, the one-character
  strings of a string, the keys of a dict; \<^verbatim>\<open>TypeError\<close> for a value that is not iterable.
\<close>

fun py_iter :: "json \<Rightarrow> exn + json list" where
  "py_iter (JArr xs) = Inr xs"
| "py_iter (JStr s) = Inr (map (\<lambda>c. JStr [c]) s)"
| "py_iter (JObj kvs) = Inr (map JStr (remdups (map fst kvs)))"
| "py_iter JNull = Inl TypeError"
| "py_iter (JBool b) = Inl TypeError"
| "py_iter (JInt n) = Inl TypeError"

text \<open>
  A Python \<^verbatim>\<open>set\<close> holds hashable values only (lists and dicts are not) and identifies
  elements that compare equal, where \<^verbatim>\<open>True == 1\<close> and \<^verbatim>\<open>False == 0\<close>. The set is modelled
  as the list of its elements in the order of first insertion; Python leaves the order in
  which \<^verbatim>\<open>list(s)\<close> enumerates a set unspecified, so no statement below depends on it.
\<close>

fun hashable :: "json \<Rightarrow> bool" where
  "hashable (JArr xs) = False"
| "hashable (JObj kvs) = False"
| "hashable v = True"

fun py_eq :: "json \<Rightarrow> json \<Rightarrow> bool" where
  "py_eq (JBool b) (JInt n) = (n = (if b then 1 else 0))"
| "py_eq (JInt n) (JBool b) = (n = (if b then 1 else 0))"
| "py_eq x y = (x = y)"

definition set_add :: "json list \<Rightarrow> json \<Rightarrow> exn + json list" where
  "set_add s x =
     (if \<not> hashable x then Inl TypeError
      else if (\<exists>y \<in> set s. py_eq y x) then Inr s
      else Inr (s @ [x]))"

fun set_add_all :: "json list \<Rightarrow> json list \<Rightarrow> exn + json list" where
  "set_add_all s [] = Inr s"
| "set_add_all s (x # xs) =
     (case set_add s x of Inl e \<Rightarrow> Inl e | Inr s' \<Rightarrow> set_add_all s' xs)"

text \<open>\<^verbatim>\<open>s.update(v)\<close>: iterate over \<open>v\<close> and add every element.\<close>

definition set_update :: "json list \<Rightarrow> json \<Rightarrow> exn + json list" where
  "set_update s v = (case py_iter v of Inl e \<Rightarrow> Inl e | Inr xs \<Rightarrow> set_add_all s xs)"

subsection \<open>Strings\<close>

text \<open>\<^verbatim>\<open>text.find(c)\<close>: the index of the first occurrence of \<open>c\<close>, or \<open>-1\<close>.\<close>

fun find_from :: "string \<Rightarrow> char \<Rightarrow> int \<Rightarrow> int" where
  "find_from [] c i = - 1"
| "find_from (x # xs) c i = (if x = c then i else find_from xs c (i + 1))"

definition str_find :: "string \<Rightarrow> char \<Rightarrow> int" where
  "str_find text c = find_from text c 0"

text \<open>\<^verbatim>\<open>text.rfind(c)\<close>: the index of the last occurrence of \<open>c\<close>, or \<open>-1\<close>.\<close>

fun rfind_from :: "string \<Rightarrow> char \<Rightarrow> int \<Rightarrow> int \<Rightarrow> int" where
  "rfind_from [] c i r = r"
| "rfind_from (x # xs) c i r = rfind_from xs c (i + 1) (if x = c then i else r)"

definition str_rfind :: "string \<Rightarrow> char \<Rightarrow> int" where
  "str_rfind text c = rfind_from text c 0 (- 1)"

text \<open>
  The slice \<^verbatim>\<open>text[a:b]\<close> for indices \<open>0 \<le> a\<close> and \<open>0 \<le> b\<close>, the only ones the reviewer
  slices with (negative indices, which Python counts from the end, do not reach it).
\<close>

definition slice :: "string \<Rightarrow> int \<Rightarrow> int \<Rightarrow> string" where
  "slice text a b = take (nat (b - a)) (drop (nat a) text)"

text \<open>\<^verbatim>\<open>name.lower()\<close> on the ASCII letters.\<close>

definition lower_char :: "char \<Rightarrow> char" where
  "lower_char c =
     (case map_of (zip ''ABCDEFGHIJKLMNOPQRSTUVWXYZ'' ''abcdefghijklmnopqrstuvwxyz'') c of
        Some l \<Rightarrow> l
      | None \<Rightarrow> c)"

definition lower :: "string \<Rightarrow> string" where
  "lower s = map lower_char s"

text \<open>\<^verbatim>\<open>", ".join(xs)\<close>.\<close>

fun join :: "string \<Rightarrow> string list \<Rightarrow> string" where
  "join sep [] = []"
| "join sep [x] = x"
| "join sep (x # y # ys) = x @ sep @ join sep (y # ys)"

text \<open>The decimal text of an integer, as an f-string renders it.\<close>

fun digits :: "nat \<Rightarrow> string" where
  "digits n =
     (if n < 10 then [''0123456789'' ! n]
      else digits (n div 10) @ [''0123456789'' ! (n mod 10)])"

declare digits.simps [simp del]

definition str_int :: "int \<Rightarrow> string" where
  "str_int i = (if i < 0 then CHR ''-'' # digits (nat (- i)) else digits (nat i))"

section \<open>The response extractor\<close>

text \<open>
  \<^verbatim>\<open>json.loads\<close> belongs to the Python library, not to this repository: it is the parameter
  \<open>loads\<close>, which returns the decoded value or the exception it raised.
  \<^verbatim>\<open>parse_json_response\<close> catches \<^verbatim>\<open>json.JSONDecodeError\<close> and nothing else, so any other
  exception of \<open>loads\<close> leaves the function.
\<close>

definition fallback :: "string \<Rightarrow> json" where
  "fallback text =
     JObj [(''summary'', JStr text), (''findings'', JArr []), (''recommendation'', JStr ''COMMENT'')]"

definition parse_json_response :: "(string \<Rightarrow> exn + json) \<Rightarrow> string \<Rightarrow> exn + json" where
  "parse_json_response loads text =
     (let json_start = str_find text CHR ''{'';
          json_end = str_rfind text CHR ''}'' + 1
      in if json_start \<ge> 0 \<and> json_end > json_start then
           (case loads (slice text json_start json_end) of
              Inr v \<Rightarrow> Inr v
            | Inl JSONDecodeError \<Rightarrow> Inr (fallback text)
            | Inl e \<Rightarrow> Inl e)
         else Inr (fallback text))"

section \<open>The reviewer agents\<close>

text \<open>
  Of an \<^verbatim>\<open>LlmAgent\<close> the reviewer reads the name, the description and the key under which
  the agent framework stores the agent's output. The instruction text, the model and the
  tools are handed to the framework and never read back.
\<close>

record agent =
  name :: string
  description :: string
  output_key :: string

definition create_specialist_agent :: "string \<Rightarrow> string \<Rightarrow> string list \<Rightarrow> agent" where
  "create_specialist_agent nm role focus_areas =
     \<lparr>name = nm,
      description = role @ '' - Reviews PRs for '' @ join '', '' (take 2 focus_areas),
      output_key = lower nm @ ''_review''\<rparr>"

definition create_tech_lead_agent :: agent where
  "create_tech_lead_agent =
     \<lparr>name = ''TechLead'',
      description = ''Tech Lead - Synthesizes reviews and makes final decision'',
      output_key = ''tech_lead_synthesis''\<rparr>"

text \<open>The five specialists that \<^verbatim>\<open>PRReviewOrchestrator.__init__\<close> creates, in its order.\<close>

definition specialist_agents :: "agent list" where
  "specialist_agents =
     [create_specialist_agent ''ProductOwner'' ''Product Owner''
        [''PR alignment with linked issues'', ''Acceptance criteria validation'',
         ''Business value verification'', ''Breaking changes impact''],
      create_specialist_agent ''SeniorEngineer'' ''Senior Software Engineer''
        [''Code quality and readability'', ''Architecture and design patterns'',
         ''Performance implications'', ''Error handling and edge cases''],
      create_specialist_agent ''SecurityEngineer'' ''Security Engineer''
        [''Security vulnerabilities (OWASP Top 10)'', ''Authentication/authorization'',
         ''Input validation'', ''Secrets exposure''],
      create_specialist_agent ''DevOpsEngineer'' ''DevOps Engineer''
        [''CI/CD configuration'', ''Infrastructure as Code'',
         ''Deployment risks'', ''Monitoring and logging''],
      create_specialist_agent ''QAEngineer'' ''QA Engineer''
        [''Test coverage'', ''Test quality'', ''Edge cases'', ''Regression risks'']]"

section \<open>The result aggregator\<close>

text \<open>
  \<^verbatim>\<open>run_review\<close> starts the agents through the framework's runner and then builds the report
  from what they left behind. The agents are language models, so the model of
  \<^verbatim>\<open>run_review\<close> takes their effect as its input: the events the runner yielded and the
  final session state, which maps an output key to the text stored under it. The clock
  reading of \<^verbatim>\<open>datetime.now().isoformat()\<close> is the parameter \<open>now\<close>.
\<close>

type_synonym session_state = "string \<rightharpoonup> string"

record event =
  author :: string
  is_final_response :: bool
  parts :: "string list"

text \<open>
  The loop over the runner's events keeps the text of the first part of the last final
  response that has content (\<open>parts\<close> is empty for an event without content or parts; a
  part is represented by its text).
\<close>

definition final_response_step :: "string \<Rightarrow> event \<Rightarrow> string" where
  "final_response_step final_response ev =
     (if is_final_response ev \<and> parts ev \<noteq> [] then hd (parts ev) else final_response)"

definition final_response_of :: "event list \<Rightarrow> string" where
  "final_response_of events = foldl final_response_step [] events"

record specialist_result =
  sr_agent :: string
  sr_role :: json
  sr_pr_accessed :: json
  sr_repository :: json
  sr_pr_number :: json
  sr_summary :: json
  sr_score :: json
  sr_files_reviewed :: json
  sr_recommendation :: json
  sr_rationale :: json
  sr_findings :: json
  sr_findings_count :: nat

record review_acc =
  specialist_results :: "specialist_result list"
  all_files_reviewed :: "json list"
  data_access_issues_acc :: "string list"

definition review_key :: "agent \<Rightarrow> string" where
  "review_key a = lower (name a) @ ''_review''"

text \<open>\<^verbatim>\<open>session.state.get(review_key, "")\<close>.\<close>

definition review_text :: "session_state \<Rightarrow> agent \<Rightarrow> string" where
  "review_text state a = (case state (review_key a) of Some t \<Rightarrow> t | None \<Rightarrow> [])"

text \<open>
  The dict that the loop appends to \<^verbatim>\<open>specialist_results\<close> for an agent whose output
  parsed to the dict \<open>parsed\<close>; \<open>n\<close> is the value of \<^verbatim>\<open>len(parsed.get("findings", []))\<close>.
\<close>

definition specialist_result_of ::
  "string \<Rightarrow> string \<Rightarrow> int \<Rightarrow> agent \<Rightarrow> dict \<Rightarrow> nat \<Rightarrow> specialist_result" where
  "specialist_result_of owner repo pr_no a parsed n =
     \<lparr>sr_agent = name a,
      sr_role = get parsed ''agent_role'' (JStr (description a)),
      sr_pr_accessed = get parsed ''pr_accessed'' (JBool True),
      sr_repository = get parsed ''repository'' (JStr (owner @ ''/'' @ repo)),
      sr_pr_number = get parsed ''pr_number'' (JInt pr_no),
      sr_summary = get parsed ''summary'' (JStr []),
      sr_score = get parsed ''score'' (JInt 0),
      sr_files_reviewed =
        get parsed ''files_in_diff'' (get parsed ''files_reviewed'' (JArr [])),
      sr_recommendation = get parsed ''recommendation'' (JStr ''COMMENT''),
      sr_rationale = get parsed ''rationale'' (JStr []),
      sr_findings = get parsed ''findings'' (JArr []),
      sr_findings_count = n\<rparr>"

text \<open>
  One iteration of the loop over the specialists. The first \<^verbatim>\<open>parsed.get\<close> raises
  \<^verbatim>\<open>AttributeError\<close> unless the parsed value is a dict; \<^verbatim>\<open>all_files_reviewed.update\<close> and
  \<^verbatim>\<open>len\<close> raise \<^verbatim>\<open>TypeError\<close> as described above.
\<close>

definition review_agent ::
  "(string \<Rightarrow> exn + json) \<Rightarrow> string \<Rightarrow> string \<Rightarrow> int \<Rightarrow> session_state \<Rightarrow>
   review_acc \<Rightarrow> agent \<Rightarrow> exn + review_acc" where
  "review_agent loads owner repo pr_no state acc a =
     (let text = review_text state a in
      if text \<noteq> [] then
        (case parse_json_response loads text of
           Inl e \<Rightarrow> Inl e
         | Inr (JObj parsed) \<Rightarrow>
             (let pr_accessed = get parsed ''pr_accessed'' (JBool True);
                  files_in_diff =
                    get parsed ''files_in_diff'' (get parsed ''files_reviewed'' (JArr []))
              in case (if \<not> truthy pr_accessed then
                         Inr (acc\<lparr>data_access_issues_acc :=
                                data_access_issues_acc acc
                                  @ [name a @ '': Could not access PR data'']\<rparr>)
                       else
                         (case set_update (all_files_reviewed acc) files_in_diff of
                            Inl e \<Rightarrow> Inl e
                          | Inr s \<Rightarrow> Inr (acc\<lparr>all_files_reviewed := s\<rparr>))) of
                   Inl e \<Rightarrow> Inl e
                 | Inr acc1 \<Rightarrow>
                     (case py_len (get parsed ''findings'' (JArr [])) of
                        Inl e \<Rightarrow> Inl e
                      | Inr n \<Rightarrow>
                          Inr (acc1\<lparr>specialist_results :=
                                 specialist_results acc1
                                   @ [specialist_result_of owner repo pr_no a parsed n]\<rparr>)))
         | Inr other \<Rightarrow> Inl AttributeError)
      else
        Inr (acc\<lparr>data_access_issues_acc :=
               data_access_issues_acc acc @ [name a @ '': No review output'']\<rparr>))"

fun review_loop ::
  "(string \<Rightarrow> exn + json) \<Rightarrow> string \<Rightarrow> string \<Rightarrow> int \<Rightarrow> session_state \<Rightarrow>
   agent list \<Rightarrow> review_acc \<Rightarrow> exn + review_acc" where
  "review_loop loads owner repo pr_no state [] acc = Inr acc"
| "review_loop loads owner repo pr_no state (a # as) acc =
     (case review_agent loads owner repo pr_no state acc a of
        Inl e \<Rightarrow> Inl e
      | Inr acc' \<Rightarrow> review_loop loads owner repo pr_no state as acc')"

text \<open>\<^verbatim>\<open>sum(len(r.get("findings", [])) for r in specialist_results)\<close>.\<close>

fun total_findings_of :: "specialist_result list \<Rightarrow> exn + nat" where
  "total_findings_of [] = Inr 0"
| "total_findings_of (r # rs) =
     (case py_len (sr_findings r) of
        Inl e \<Rightarrow> Inl e
      | Inr n \<Rightarrow> (case total_findings_of rs of Inl e \<Rightarrow> Inl e | Inr m \<Rightarrow> Inr (n + m)))"

record report =
  pr :: string
  repository :: string
  pr_number :: int
  timestamp :: string
  data_access_status :: string
  data_access_issues :: "string list"
  files_reviewed :: "json list"
  summary :: json
  overall_score :: json
  auto_approve :: json
  congratulations_message :: json
  final_decision :: json
  critical_blockers :: json
  important_improvements :: json
  optional_suggestions :: json
  inline_comments :: json
  specialist_reviews :: "specialist_result list"
  rationale :: json
  next_steps :: json

text \<open>
  The default of \<open>congratulations_message\<close>; its three emoji (party popper, rocket, sparkles)
  are written as UTF-8 bytes.
\<close>

definition congratulations_default :: string where
  "congratulations_default =
     [CHR 0xF0, CHR 0x9F, CHR 0x8E, CHR 0x89]
     @ '' Great work! This PR looks clean and well-structured. Keep it up! ''
     @ [CHR 0xF0, CHR 0x9F, CHR 0x9A, CHR 0x80,
        CHR 0xE2, CHR 0x9C, CHR 0xA8]"

text \<open>\<^verbatim>\<open>session.state.get("tech_lead_synthesis", final_response)\<close>.\<close>

definition tech_lead_text_of :: "session_state \<Rightarrow> string \<Rightarrow> string" where
  "tech_lead_text_of state final_response =
     (case state ''tech_lead_synthesis'' of Some t \<Rightarrow> t | None \<Rightarrow> final_response)"

definition data_status_of :: "string list \<Rightarrow> agent list \<Rightarrow> string" where
  "data_status_of issues agents =
     (if length issues = 0 then ''all_success''
      else if length issues = length agents then ''all_failed''
      else ''partial_failure'')"

definition run_review ::
  "(string \<Rightarrow> exn + json) \<Rightarrow> string \<Rightarrow> string \<Rightarrow> int \<Rightarrow> string \<Rightarrow>
   event list \<Rightarrow> session_state \<Rightarrow> exn + report" where
  "run_review loads owner repo pr_no now events state =
     (let final_response = final_response_of events in
      case review_loop loads owner repo pr_no state specialist_agents
             \<lparr>specialist_results = [], all_files_reviewed = [], data_access_issues_acc = []\<rparr>
      of
        Inl e \<Rightarrow> Inl e
      | Inr acc \<Rightarrow>
          (case parse_json_response loads (tech_lead_text_of state final_response) of
             Inl e \<Rightarrow> Inl e
           | Inr tech_lead_parsed \<Rightarrow>
               (let data_status = data_status_of (data_access_issues_acc acc) specialist_agents
                in case tech_lead_parsed of
                     JObj synthesis \<Rightarrow>
                       (case total_findings_of (specialist_results acc) of
                          Inl e \<Rightarrow> Inl e
                        | Inr total_findings \<Rightarrow>
                            (let override = (total_findings = 0 \<and> data_status = ''all_success'')
                             in Inr
                               \<lparr>pr = owner @ ''/'' @ repo @ ''#'' @ str_int pr_no,
                                repository = owner @ ''/'' @ repo,
                                pr_number = pr_no,
                                timestamp = now,
                                data_access_status = data_status,
                                data_access_issues = data_access_issues_acc acc,
                                files_reviewed = all_files_reviewed acc,
                                summary = get synthesis ''summary'' (JStr ''Review completed''),
                                overall_score = get synthesis ''overall_score'' (JInt 0),
                                auto_approve =
                                  (if override then JBool True
                                   else get synthesis ''auto_approve'' (JBool False)),
                                congratulations_message =
                                  get synthesis ''congratulations_message'' (JStr congratulations_default),
                                final_decision =
                                  (if override then JStr ''APPROVE''
                                   else get synthesis ''final_decision'' (JStr ''COMMENT'')),
                                critical_blockers = get synthesis ''critical_blockers'' (JArr []),
                                important_improvements =
                                  get synthesis ''important_improvements'' (JArr []),
                                optional_suggestions = get synthesis ''optional_suggestions'' (JArr []),
                                inline_comments = get synthesis ''inline_comments'' (JArr []),
                                specialist_reviews = specialist_results acc,
                                rationale = get synthesis ''rationale'' (JStr []),
                                next_steps = get synthesis ''next_steps'' (JArr [])\<rparr>))
                   | other \<Rightarrow> Inl AttributeError)))"

section \<open>Notions used to state the properties\<close>

text \<open>
  What one specialist handed to the aggregator, read off the session state with the
  aggregator's own expressions: whether it left any output, the dict extracted from the
  output, and the fields of that dict the aggregator looks at.
\<close>

definition has_output :: "session_state \<Rightarrow> agent \<Rightarrow> bool" where
  "has_output state a = (review_text state a \<noteq> [])"

definition payload :: "(string \<Rightarrow> exn + json) \<Rightarrow> session_state \<Rightarrow> agent \<Rightarrow> dict" where
  "payload loads state a =
     (case parse_json_response loads (review_text state a) of
        Inr (JObj d) \<Rightarrow> d
      | other \<Rightarrow> [])"

definition reported_pr_accessed ::
  "(string \<Rightarrow> exn + json) \<Rightarrow> session_state \<Rightarrow> agent \<Rightarrow> json" where
  "reported_pr_accessed loads state a = get (payload loads state a) ''pr_accessed'' (JBool True)"

definition file_list :: "dict \<Rightarrow> json" where
  "file_list d = get d ''files_in_diff'' (get d ''files_reviewed'' (JArr []))"

definition elements :: "json \<Rightarrow> json list" where
  "elements v = (case py_iter v of Inr xs \<Rightarrow> xs | Inl e \<Rightarrow> [])"

text \<open>A specialist is a data-access issue when it left no output or reports no access.\<close>

definition is_issue :: "(string \<Rightarrow> exn + json) \<Rightarrow> session_state \<Rightarrow> agent \<Rightarrow> bool" where
  "is_issue loads state a =
     (\<not> has_output state a \<or> \<not> truthy (reported_pr_accessed loads state a))"

definition issue_of :: "(string \<Rightarrow> exn + json) \<Rightarrow> session_state \<Rightarrow> agent \<Rightarrow> string list" where
  "issue_of loads state a =
     (if \<not> has_output state a then [name a @ '': No review output'']
      else if \<not> truthy (reported_pr_accessed loads state a)
        then [name a @ '': Could not access PR data'']
      else [])"

text \<open>The files a specialist contributes: its file list, when it has output and access.\<close>

definition contributed :: "(string \<Rightarrow> exn + json) \<Rightarrow> session_state \<Rightarrow> agent \<Rightarrow> json list" where
  "contributed loads state a =
     (if is_issue loads state a then [] else elements (file_list (payload loads state a)))"

definition findings_len :: "dict \<Rightarrow> nat" where
  "findings_len d = (case py_len (get d ''findings'' (JArr [])) of Inr n \<Rightarrow> n | Inl e \<Rightarrow> 0)"

definition entry_of ::
  "(string \<Rightarrow> exn + json) \<Rightarrow> string \<Rightarrow> string \<Rightarrow> int \<Rightarrow> session_state \<Rightarrow> agent \<Rightarrow>
   specialist_result" where
  "entry_of loads owner repo pr_no state a =
     specialist_result_of owner repo pr_no a (payload loads state a)
       (findings_len (payload loads state a))"

definition synthesis_text :: "event list \<Rightarrow> session_state \<Rightarrow> string" where
  "synthesis_text events state = tech_lead_text_of state (final_response_of events)"

definition synthesis_payload ::
  "(string \<Rightarrow> exn + json) \<Rightarrow> event list \<Rightarrow> session_state \<Rightarrow> dict" where
  "synthesis_payload loads events state =
     (case parse_json_response loads (synthesis_text events state) of
        Inr (JObj d) \<Rightarrow> d
      | other \<Rightarrow> [])"

text \<open>The sum of the \<open>findings_count\<close> fields of a list of specialist entries.\<close>

definition findings_total :: "specialist_result list \<Rightarrow> nat" where
  "findings_total rs = sum_list (map sr_findings_count rs)"

text \<open>
  A text from which nothing can be extracted: it has no \<open>{\<close> followed by a later \<open>}\<close>, or
  the text between the first \<open>{\<close> and the last \<open>}\<close> is not JSON.
\<close>

definition unparseable :: "(string \<Rightarrow> exn + json) \<Rightarrow> string \<Rightarrow> bool" where
  "unparseable loads text =
     (str_find text CHR ''{'' < 0
      \<or> str_rfind text CHR ''}'' + 1 \<le> str_find text CHR ''{''
      \<or> loads (slice text (str_find text CHR ''{'') (str_rfind text CHR ''}'' + 1))
          = Inl JSONDecodeError)"

definition init_acc :: review_acc where
  "init_acc = \<lparr>specialist_results = [], all_files_reviewed = [], data_access_issues_acc = []\<rparr>"

section \<open>The orchestrator\<close>

text \<open>
  \<^verbatim>\<open>PRReviewOrchestrator._run_async_impl\<close> is an asynchronous generator over two generators of
  the agent framework: the run of the \<^verbatim>\<open>ParallelAgent\<close> that holds the five specialists,
  and the run of the tech lead. A running generator is a value that a \<open>resume\<close> function
  advances: it yields an event and its continuation, stops, or raises; it may change the
  session on the way. Both framework generators are parameters.
\<close>

datatype 'g step = Yield event 'g | Stop | Raise

type_synonym ('g, 's) generator = "'g \<Rightarrow> 's \<Rightarrow> 'g step \<times> 's"

text \<open>
  The orchestrator is in its first loop, over the parallel review, or in its second, over
  the tech lead. \<open>tech_lead_run\<close> creates the tech lead's generator from the session, which
  the source does when the first loop has ended. The logging between the first loop and the
  second reads the
  session and changes nothing.
\<close>

datatype ('p, 't) phase = Phase1 'p | Phase2 't

definition run_async_impl ::
  "('p, 's) generator \<Rightarrow> ('s \<Rightarrow> 't) \<Rightarrow> ('t, 's) generator \<Rightarrow> (('p, 't) phase, 's) generator" where
  "run_async_impl parallel_review tech_lead_run tech_lead ph s =
     (case ph of
        Phase1 g \<Rightarrow>
          (case parallel_review g s of
             (Yield ev g', s') \<Rightarrow> (Yield ev (Phase1 g'), s')
           | (Raise, s') \<Rightarrow> (Raise, s')
           | (Stop, s') \<Rightarrow>
               (case tech_lead (tech_lead_run s') s' of
                  (Yield ev t', s'') \<Rightarrow> (Yield ev (Phase2 t'), s'')
                | (Raise, s'') \<Rightarrow> (Raise, s'')
                | (Stop, s'') \<Rightarrow> (Stop, s'')))
      | Phase2 t \<Rightarrow>
          (case tech_lead t s of
             (Yield ev t', s') \<Rightarrow> (Yield ev (Phase2 t'), s')
           | (Raise, s') \<Rightarrow> (Raise, s')
           | (Stop, s') \<Rightarrow> (Stop, s')))"

text \<open>
  The consumer of a generator (\<^verbatim>\<open>async for\<close>) resumes it until it stops or raises. A
  generator of the framework need not stop, so the consumer is given a number of resumptions;
  \<open>Pending\<close> says that they did not suffice.
\<close>

datatype outcome = Pending | Exhausted | Raised

fun consume :: "nat \<Rightarrow> ('g, 's) generator \<Rightarrow> 'g \<Rightarrow> 's \<Rightarrow> event list \<times> outcome \<times> 's" where
  "consume 0 gen g s = ([], Pending, s)"
| "consume (Suc n) gen g s =
     (case gen g s of
        (Stop, s') \<Rightarrow> ([], Exhausted, s')
      | (Raise, s') \<Rightarrow> ([], Raised, s')
      | (Yield ev g', s') \<Rightarrow>
          (case consume n gen g' s' of (evs, out, s'') \<Rightarrow> (ev # evs, out, s'')))"

section \<open>Sample runs\<close>

text \<open>
  Outputs of agents as they appear in the session, and a decoder that agrees with
  \<^verbatim>\<open>json.loads\<close> on them: it decodes the five JSON texts below and rejects the prose.
\<close>

definition clean_text :: string where
  \<open>clean_text = ''{"pr_accessed": true, "files_in_diff": ["a.py"], "findings": []}''\<close>

definition no_access_text :: string where
  \<open>no_access_text = ''{"pr_accessed": false, "files_in_diff": ["b.py"], "findings": []}''\<close>

definition approve_text :: string where
  \<open>approve_text = ''{"auto_approve": true, "final_decision": "APPROVE"}''\<close>

definition reject_text :: string where
  \<open>reject_text = ''{"auto_approve": false, "final_decision": "REQUEST_CHANGES"}''\<close>

definition scored_text :: string where
  \<open>scored_text =
     ''{"score": 11, "files_in_diff": ["a.py", "c.py"], "findings": [{"severity": "LOW"}]}''\<close>

definition prose_text :: string where
  "prose_text = ''Looks fine to me.''"

definition sample_loads :: "string \<Rightarrow> exn + json" where
  "sample_loads s =
     (if s = clean_text then
        Inr (JObj [(''pr_accessed'', JBool True), (''files_in_diff'', JArr [JStr ''a.py'']),
                   (''findings'', JArr [])])
      else if s = no_access_text then
        Inr (JObj [(''pr_accessed'', JBool False), (''files_in_diff'', JArr [JStr ''b.py'']),
                   (''findings'', JArr [])])
      else if s = approve_text then
        Inr (JObj [(''auto_approve'', JBool True), (''final_decision'', JStr ''APPROVE'')])
      else if s = reject_text then
        Inr (JObj [(''auto_approve'', JBool False),
                   (''final_decision'', JStr ''REQUEST_CHANGES'')])
      else if s = scored_text then
        Inr (JObj [(''score'', JInt 11), (''files_in_diff'', JArr [JStr ''a.py'', JStr ''c.py'']),
                   (''findings'', JArr [JObj [(''severity'', JStr ''LOW'')]])])
      else Inl JSONDecodeError)"

text \<open>
  \<^verbatim>\<open>json.loads\<close> has limits: on arrays nested deeper than the interpreter's recursion limit
  it raises \<^verbatim>\<open>RecursionError\<close>, and on an integer literal of more than 4300 digits it raises
  a plain \<^verbatim>\<open>ValueError\<close>. Neither is a \<^verbatim>\<open>JSONDecodeError\<close>. The two texts below
  are \<^verbatim>\<open>'{"a": ' + '[' * n + '}'\<close> and \<^verbatim>\<open>'{"a": ' + '9' * n + '}'\<close>, and
  \<open>limited_loads\<close> is the sample decoder with the behaviour of \<^verbatim>\<open>json.loads\<close> on the first
  at depth 100000 and on the second at 5000 digits.
\<close>

definition nested_text :: "nat \<Rightarrow> string" where
  \<open>nested_text n = ''{"a": '' @ replicate n CHR ''['' @ ''}''\<close>

definition digits_text :: "nat \<Rightarrow> string" where
  \<open>digits_text n = ''{"a": '' @ replicate n CHR ''9'' @ ''}''\<close>

definition limited_loads :: "string \<Rightarrow> exn + json" where
  "limited_loads s =
     (if s = nested_text 100000 then Inl RecursionError
      else if s = digits_text 5000 then Inl ValueError
      else sample_loads s)"

text \<open>All five specialists clean; the tech lead asks for changes all the same.\<close>

definition clean_state :: session_state where
  "clean_state =
     map_of [(''productowner_review'', clean_text), (''seniorengineer_review'', clean_text),
             (''securityengineer_review'', clean_text), (''devopsengineer_review'', clean_text),
             (''qaengineer_review'', clean_text), (''tech_lead_synthesis'', reject_text)]"

text \<open>
  Two specialists without access to the pull request, three clean; the tech lead approves.
\<close>

definition partial_state :: session_state where
  "partial_state =
     map_of [(''productowner_review'', no_access_text), (''seniorengineer_review'', no_access_text),
             (''securityengineer_review'', clean_text), (''devopsengineer_review'', clean_text),
             (''qaengineer_review'', clean_text), (''tech_lead_synthesis'', approve_text)]"

text \<open>
  A payload with a score and a finding but no \<open>pr_accessed\<close> field, a specialist without
  access, one that answered in prose, and a synthesis in prose.
\<close>

definition scored_state :: session_state where
  "scored_state =
     map_of [(''productowner_review'', scored_text), (''seniorengineer_review'', clean_text),
             (''securityengineer_review'', no_access_text), (''devopsengineer_review'', clean_text),
             (''qaengineer_review'', prose_text), (''tech_lead_synthesis'', prose_text)]"

text \<open>
  One specialist answered in prose, one left the empty string, three left nothing, and
  there is no synthesis.
\<close>

definition prose_state :: session_state where
  "prose_state =
     map_of [(''productowner_review'', prose_text), (''seniorengineer_review'', [])]"

text \<open>
  A parallel stage that yields given events one by one and notes each author in the
  session, and a tech lead whose run, when created, reads the session and then yields one
  event that lists what it saw.
\<close>

fun sample_parallel :: "(event list, string list) generator" where
  "sample_parallel [] s = (Stop, s)"
| "sample_parallel (ev # evs) s = (Yield ev evs, s @ [author ev])"

definition sample_tech_lead_run :: "string list \<Rightarrow> event list" where
  "sample_tech_lead_run s =
     [\<lparr>author = ''TechLead'', is_final_response = True, parts = [join '', '' s]\<rparr>]"

fun sample_tech_lead :: "(event list, string list) generator" where
  "sample_tech_lead [] s = (Stop, s)"
| "sample_tech_lead (ev # evs) s = (Yield ev evs, s)"

definition sample_events :: "event list" where
  "sample_events =
     [\<lparr>author = ''SecurityEngineer'', is_final_response = True, parts = [clean_text]\<rparr>,
      \<lparr>author = ''ProductOwner'', is_final_response = True, parts = [prose_text]\<rparr>]"

section \<open>The string operations find what Python's find\<close>

text \<open>
  \<open>str_find\<close> is negative exactly when the character does not occur, and otherwise is the
  index of its first occurrence; \<open>str_rfind\<close> likewise for the last occurrence.
\<close>

lemma find_from_absent: "c \<notin> set t \<Longrightarrow> find_from t c i = - 1"
  by (induction t arbitrary: i) auto

lemma find_from_present:
  "c \<in> set t \<Longrightarrow>
   \<exists>k < length t. find_from t c i = i + int k \<and> t ! k = c \<and> (\<forall>j < k. t ! j \<noteq> c)"
proof (induction t arbitrary: i)
  case Nil
  then show ?case by simp
next
  case (Cons x xs)
  show ?case
  proof (cases "x = c")
    case True
    then show ?thesis by (intro exI [of _ 0]) simp
  next
    case False
    with Cons.prems have "c \<in> set xs" by simp
    from Cons.IH [OF this, of "i + 1"] obtain k where
      k: "k < length xs" "find_from xs c (i + 1) = i + 1 + int k" "xs ! k = c"
         "\<forall>j < k. xs ! j \<noteq> c" by blast
    show ?thesis
    proof (intro exI [of _ "Suc k"] conjI allI impI)
      fix j assume "j < Suc k"
      then show "(x # xs) ! j \<noteq> c" using False k(4) by (cases j) auto
    qed (use False k in auto)
  qed
qed

lemma str_find_absent: "str_find t c < 0 \<longleftrightarrow> c \<notin> set t"
  using find_from_present [of c t 0] find_from_absent [of c t 0]
  by (auto simp: str_find_def)

lemma str_find_first:
  assumes "c \<in> set t"
  shows "\<exists>k < length t. str_find t c = int k \<and> t ! k = c \<and> (\<forall>j < k. t ! j \<noteq> c)"
  using find_from_present [OF assms, of 0] by (simp add: str_find_def)

lemma rfind_from_absent: "c \<notin> set t \<Longrightarrow> rfind_from t c i r = r"
  by (induction t arbitrary: i r) auto

lemma rfind_from_present:
  "c \<in> set t \<Longrightarrow>
   \<exists>k < length t. rfind_from t c i r = i + int k \<and> t ! k = c
      \<and> (\<forall>j < length t. k < j \<longrightarrow> t ! j \<noteq> c)"
proof (induction t arbitrary: i r)
  case Nil
  then show ?case by simp
next
  case (Cons x xs)
  show ?case
  proof (cases "c \<in> set xs")
    case True
    from Cons.IH [OF this, of "i + 1" "if x = c then i else r"] obtain k where
      k: "k < length xs" "rfind_from xs c (i + 1) (if x = c then i else r) = i + 1 + int k"
         "xs ! k = c" "\<forall>j < length xs. k < j \<longrightarrow> xs ! j \<noteq> c" by blast
    show ?thesis
    proof (intro exI [of _ "Suc k"] conjI allI impI)
      fix j assume "j < length (x # xs)" "Suc k < j"
      then show "(x # xs) ! j \<noteq> c" using k(4) by (cases j) auto
    qed (use k in auto)
  next
    case False
    with Cons.prems have xc: "x = c" by simp
    show ?thesis
    proof (intro exI [of _ 0] conjI allI impI)
      fix j assume "j < length (x # xs)" "0 < j"
      then show "(x # xs) ! j \<noteq> c" using False by (cases j) auto
    qed (use xc False in \<open>auto simp: rfind_from_absent\<close>)
  qed
qed

lemma str_rfind_absent: "str_rfind t c < 0 \<longleftrightarrow> c \<notin> set t"
  using rfind_from_present [of c t 0 "- 1"] rfind_from_absent [of c t 0 "- 1"]
  by (auto simp: str_rfind_def)

lemma str_rfind_last:
  assumes "c \<in> set t"
  shows "\<exists>k < length t. str_rfind t c = int k \<and> t ! k = c
           \<and> (\<forall>j < length t. k < j \<longrightarrow> t ! j \<noteq> c)"
  using rfind_from_present [OF assms, of 0 "- 1"] by (simp add: str_rfind_def)

section \<open>What the response extractor returns\<close>

lemma parse_json_response_cases:
  "parse_json_response loads text =
     (if unparseable loads text then Inr (fallback text)
      else loads (slice text (str_find text CHR ''{'') (str_rfind text CHR ''}'' + 1)))"
  by (auto simp: parse_json_response_def unparseable_def Let_def split: sum.splits exn.splits)


lemma sample_loads_raises: "sample_loads s = Inl e \<Longrightarrow> e = JSONDecodeError"
  by (simp add: sample_loads_def split: if_splits)


text \<open>An exception of the decoder other than \<^verbatim>\<open>JSONDecodeError\<close> is not caught.\<close>

lemma parse_json_response_propagates:
  assumes "\<not> unparseable loads t"
    and "loads (slice t (str_find t CHR ''{'') (str_rfind t CHR ''}'' + 1)) = Inl e"
  shows "parse_json_response loads t = Inl e"
  using assms by (simp add: parse_json_response_cases)

text \<open>
  A text that starts with \<open>{\<close> and ends with \<open>}\<close> goes whole to the decoder. So the limits of
  \<^verbatim>\<open>json.loads\<close> reach the extractor's caller.
\<close>

lemma rfind_from_last: "rfind_from (xs @ [c]) c i r = i + int (length xs)"
  by (induction xs arbitrary: i r) auto

lemma braced_find:
  "str_find (CHR ''{'' # body @ [CHR ''}'']) CHR ''{'' = 0"
  "str_rfind (CHR ''{'' # body @ [CHR ''}'']) CHR ''}'' = 1 + int (length body)"
  using rfind_from_last [of "CHR ''{'' # body" "CHR ''}''" 0 "- 1"]
  by (simp_all add: str_find_def str_rfind_def)

lemma braced_slice:
  "slice (CHR ''{'' # body @ [CHR ''}''])
     (str_find (CHR ''{'' # body @ [CHR ''}'']) CHR ''{'')
     (str_rfind (CHR ''{'' # body @ [CHR ''}'']) CHR ''}'' + 1)
   = CHR ''{'' # body @ [CHR ''}'']"
  unfolding braced_find by (simp add: slice_def)

lemma braced_parseable: "unparseable loads (CHR ''{'' # body @ [CHR ''}'']) \<longleftrightarrow>
    loads (CHR ''{'' # body @ [CHR ''}'']) = Inl JSONDecodeError"
  unfolding unparseable_def braced_slice unfolding braced_find by simp

lemma parse_braced:
  "parse_json_response loads (CHR ''{'' # body @ [CHR ''}'']) =
     (if loads (CHR ''{'' # body @ [CHR ''}'']) = Inl JSONDecodeError
      then Inr (fallback (CHR ''{'' # body @ [CHR ''}'']))
      else loads (CHR ''{'' # body @ [CHR ''}'']))"
  unfolding parse_json_response_cases braced_parseable braced_slice by simp

lemma parse_nested:
  "parse_json_response loads (nested_text n) =
     (if loads (nested_text n) = Inl JSONDecodeError then Inr (fallback (nested_text n))
      else loads (nested_text n))"
  using parse_braced [of loads \<open>''"a": '' @ replicate n CHR ''[''\<close>]
  by (simp add: nested_text_def)

lemma parse_digits:
  "parse_json_response loads (digits_text n) =
     (if loads (digits_text n) = Inl JSONDecodeError then Inr (fallback (digits_text n))
      else loads (digits_text n))"
  using parse_braced [of loads \<open>''"a": '' @ replicate n CHR ''9''\<close>]
  by (simp add: digits_text_def)

lemma digits_not_nested: "0 < m \<Longrightarrow> digits_text m \<noteq> nested_text n"
  by (cases m; cases n) (auto simp: digits_text_def nested_text_def)

lemma limited_loads_raises:
  "limited_loads (nested_text 100000) = Inl RecursionError"
  "limited_loads (digits_text 5000) = Inl ValueError"
proof -
  show "limited_loads (nested_text 100000) = Inl RecursionError"
    by (simp add: limited_loads_def)
  have "digits_text 5000 \<noteq> nested_text 100000"
    by (rule digits_not_nested) simp
  then show "limited_loads (digits_text 5000) = Inl ValueError"
    by (simp add: limited_loads_def)
qed

lemma parse_limits:
  "parse_json_response limited_loads (nested_text 100000) = Inl RecursionError"
  "parse_json_response limited_loads (digits_text 5000) = Inl ValueError"
  by (simp_all only: parse_nested parse_digits limited_loads_raises) simp_all

text \<open>
  Claim C4, as the extractor implements it. \<^verbatim>\<open>parse_json_response\<close> returns a payload
  exactly when the decoder, applied to the substring from the first \<open>{\<close> to the last \<open>}\<close>,
  does not raise anything other than \<^verbatim>\<open>JSONDecodeError\<close>; such an exception is not caught
  and leaves the function. When the text has no \<open>{\<close>, no \<open>}\<close>, its last \<open>}\<close> before its
  first \<open>{\<close> (the decoder is not called then), or the decoder raises \<^verbatim>\<open>JSONDecodeError\<close> on
  the substring, the payload is exactly
  \<open>{summary = text, findings = [], recommendation = "COMMENT"}\<close>; when the decoder returns a
  value, that value is the payload.
\<close>

theorem parse_json_response_total:
  "((\<exists>p. parse_json_response loads t = Inr p) \<longleftrightarrow>
      \<not> (CHR ''{'' \<in> set t \<and> str_find t CHR ''{'' < str_rfind t CHR ''}''
         \<and> (\<exists>e. loads (slice t (str_find t CHR ''{'') (str_rfind t CHR ''}'' + 1)) = Inl e
                \<and> e \<noteq> JSONDecodeError)))
   \<and> (CHR ''{'' \<notin> set t \<or> CHR ''}'' \<notin> set t
        \<or> str_rfind t CHR ''}'' < str_find t CHR ''{''
        \<or> loads (slice t (str_find t CHR ''{'') (str_rfind t CHR ''}'' + 1)) = Inl JSONDecodeError
      \<longrightarrow> parse_json_response loads t
            = Inr (JObj [(''summary'', JStr t), (''findings'', JArr []),
                         (''recommendation'', JStr ''COMMENT'')]))
   \<and> (\<forall>v. CHR ''{'' \<in> set t \<and> str_find t CHR ''{'' < str_rfind t CHR ''}''
           \<and> loads (slice t (str_find t CHR ''{'') (str_rfind t CHR ''}'' + 1)) = Inr v
      \<longrightarrow> parse_json_response loads t = Inr v)
   \<and> (\<forall>e. CHR ''{'' \<in> set t \<and> str_find t CHR ''{'' < str_rfind t CHR ''}''
           \<and> loads (slice t (str_find t CHR ''{'') (str_rfind t CHR ''}'' + 1)) = Inl e
           \<and> e \<noteq> JSONDecodeError
      \<longrightarrow> parse_json_response loads t = Inl e)"
proof -
  let ?s = "slice t (str_find t CHR ''{'') (str_rfind t CHR ''}'' + 1)"
  have U: "unparseable loads t \<longleftrightarrow>
      CHR ''{'' \<notin> set t \<or> CHR ''}'' \<notin> set t \<or> str_rfind t CHR ''}'' < str_find t CHR ''{''
      \<or> loads ?s = Inl JSONDecodeError"
    using str_find_absent [of t "CHR ''{''"] str_rfind_absent [of t "CHR ''}''"]
    by (auto simp: unparseable_def)
  have B: "CHR ''{'' \<in> set t \<and> str_find t CHR ''{'' < str_rfind t CHR ''}'' \<longleftrightarrow>
      \<not> (CHR ''{'' \<notin> set t \<or> CHR ''}'' \<notin> set t \<or> str_rfind t CHR ''}'' < str_find t CHR ''{'')"
  proof -
    have "str_find t CHR ''{'' \<noteq> str_rfind t CHR ''}''" if "CHR ''{'' \<in> set t" "CHR ''}'' \<in> set t"
    proof -
      from str_find_first [OF that(1)] obtain k where
        k: "k < length t" "str_find t CHR ''{'' = int k" "t ! k = CHR ''{''" by blast
      from str_rfind_last [OF that(2)] obtain j where
        j: "j < length t" "str_rfind t CHR ''}'' = int j" "t ! j = CHR ''}''" by blast
      from k j show ?thesis by auto
    qed
    then show ?thesis
      using str_find_absent [of t "CHR ''{''"] str_rfind_absent [of t "CHR ''}''"] by force
  qed
  have P: "parse_json_response loads t =
      (if unparseable loads t
       then Inr (JObj [(''summary'', JStr t), (''findings'', JArr []),
                       (''recommendation'', JStr ''COMMENT'')])
       else loads ?s)"
    by (simp add: parse_json_response_cases fallback_def)
  show ?thesis
  proof (cases "unparseable loads t")
    case True
    with P U B show ?thesis by auto
  next
    case False
    with P U B show ?thesis by (cases "loads ?s") auto
  qed
qed

theorem parse_json_response_total_witness:
  "parse_json_response sample_loads ''} not { JSON''
     = Inr (JObj [(''summary'', JStr ''} not { JSON''), (''findings'', JArr []),
                  (''recommendation'', JStr ''COMMENT'')])
   \<and> parse_json_response sample_loads []
     = Inr (JObj [(''summary'', JStr []), (''findings'', JArr []),
                  (''recommendation'', JStr ''COMMENT'')])
   \<and> parse_json_response sample_loads ('' ok: '' @ approve_text @ ''.'')
       = Inr (JObj [(''auto_approve'', JBool True), (''final_decision'', JStr ''APPROVE'')])"
proof -
  have a: "str_rfind ''} not { JSON'' CHR ''}'' < str_find ''} not { JSON'' CHR ''{''"
    by (simp add: str_find_def str_rfind_def)
  have e: "CHR ''{'' \<notin> set []" by simp
  have b: "CHR ''{'' \<in> set ('' ok: '' @ approve_text @ ''.'')
     \<and> str_find ('' ok: '' @ approve_text @ ''.'') CHR ''{''
          < str_rfind ('' ok: '' @ approve_text @ ''.'') CHR ''}''
     \<and> sample_loads (slice ('' ok: '' @ approve_text @ ''.'')
           (str_find ('' ok: '' @ approve_text @ ''.'') CHR ''{'')
           (str_rfind ('' ok: '' @ approve_text @ ''.'') CHR ''}'' + 1))
        = Inr (JObj [(''auto_approve'', JBool True), (''final_decision'', JStr ''APPROVE'')])"
    by code_simp
  show ?thesis
    using a b e parse_json_response_total [of sample_loads "''} not { JSON''"]
      parse_json_response_total [of sample_loads "[]"]
      parse_json_response_total [of sample_loads "'' ok: '' @ approve_text @ ''.''"]
    by blast
qed

text \<open>
  The claim as stated fails: on an object that holds arrays nested 100000 deep
  \<^verbatim>\<open>json.loads\<close> raises \<^verbatim>\<open>RecursionError\<close>, on one that holds an integer of 5000 digits it
  raises \<^verbatim>\<open>ValueError\<close>, and \<^verbatim>\<open>parse_json_response\<close> raises the same.
\<close>

theorem parse_json_response_counterexample:
  "parse_json_response limited_loads (nested_text 100000) = Inl RecursionError
   \<and> parse_json_response limited_loads (digits_text 5000) = Inl ValueError"
  using parse_limits by simp

section \<open>What the loop over the specialists computes\<close>

text \<open>The five agents, the names they are reported under and the keys their outputs are read from.\<close>

lemma specialist_names:
  "map name specialist_agents =
     [''ProductOwner'', ''SeniorEngineer'', ''SecurityEngineer'', ''DevOpsEngineer'', ''QAEngineer'']"
  by (simp add: specialist_agents_def create_specialist_agent_def)

lemma specialist_keys:
  "map review_key specialist_agents =
     [''productowner_review'', ''seniorengineer_review'', ''securityengineer_review'',
      ''devopsengineer_review'', ''qaengineer_review'']"
  by (simp add: specialist_agents_def create_specialist_agent_def review_key_def lower_def
      lower_char_def)

lemma output_key_is_review_key: "\<forall>a \<in> set specialist_agents. output_key a = review_key a"
  by (simp add: specialist_agents_def create_specialist_agent_def review_key_def)

lemma length_specialist_agents: "length specialist_agents = 5"
  by (simp add: specialist_agents_def)

lemma distinct_specialist_names: "distinct (map name specialist_agents)"
  by (simp add: specialist_names)

lemma review_agent_Inr:
  assumes "review_agent loads owner repo pr_no state acc a = Inr acc'"
  shows "data_access_issues_acc acc' = data_access_issues_acc acc @ issue_of loads state a"
    and "specialist_results acc' =
           specialist_results acc
             @ (if has_output state a then [entry_of loads owner repo pr_no state a] else [])"
    and "has_output state a \<Longrightarrow>
           py_len (get (payload loads state a) ''findings'' (JArr []))
             = Inr (findings_len (payload loads state a))"
    and "if is_issue loads state a then all_files_reviewed acc' = all_files_reviewed acc
         else set_update (all_files_reviewed acc) (file_list (payload loads state a))
                = Inr (all_files_reviewed acc')"
    and "has_output state a \<Longrightarrow>
           \<exists>d. parse_json_response loads (review_text state a) = Inr (JObj d)"
  using assms
  by (auto simp: review_agent_def Let_def issue_of_def has_output_def payload_def entry_of_def
      is_issue_def reported_pr_accessed_def file_list_def findings_len_def
      split: if_splits sum.splits json.splits)


lemma review_loop_Inr:
  assumes "review_loop loads owner repo pr_no state as acc = Inr acc'"
  shows "data_access_issues_acc acc'
           = data_access_issues_acc acc @ concat (map (issue_of loads state) as)"
    and "specialist_results acc'
           = specialist_results acc
               @ map (entry_of loads owner repo pr_no state) (filter (has_output state) as)"
    and "\<forall>a \<in> set as. has_output state a \<longrightarrow>
           py_len (get (payload loads state a) ''findings'' (JArr []))
             = Inr (findings_len (payload loads state a))"
    and "\<forall>a \<in> set as. has_output state a \<longrightarrow>
           (\<exists>d. parse_json_response loads (review_text state a) = Inr (JObj d))"
  using assms
proof (induction as arbitrary: acc)
  case Nil
  {
    case 1 then show ?case by simp
  next
    case 2 then show ?case by simp
  next
    case 3 then show ?case by simp
  next
    case 4 then show ?case by simp
  }
next
  case (Cons a as)
  {
    case 1
    then obtain acc1 where
      s: "review_agent loads owner repo pr_no state acc a = Inr acc1"
      and l: "review_loop loads owner repo pr_no state as acc1 = Inr acc'"
      by (auto split: sum.splits)
    show ?case using review_agent_Inr(1) [OF s] Cons.IH(1) [OF l] by simp
  next
    case 2
    then obtain acc1 where
      s: "review_agent loads owner repo pr_no state acc a = Inr acc1"
      and l: "review_loop loads owner repo pr_no state as acc1 = Inr acc'"
      by (auto split: sum.splits)
    show ?case using review_agent_Inr(2) [OF s] Cons.IH(2) [OF l] by simp
  next
    case 3
    then obtain acc1 where
      s: "review_agent loads owner repo pr_no state acc a = Inr acc1"
      and l: "review_loop loads owner repo pr_no state as acc1 = Inr acc'"
      by (auto split: sum.splits)
    show ?case using review_agent_Inr(3) [OF s] Cons.IH(3) [OF l] by simp
  next
    case 4
    then obtain acc1 where
      s: "review_agent loads owner repo pr_no state acc a = Inr acc1"
      and l: "review_loop loads owner repo pr_no state as acc1 = Inr acc'"
      by (auto split: sum.splits)
    show ?case using review_agent_Inr(5) [OF s] Cons.IH(4) [OF l] by simp
  }
qed

text \<open>Adding to a set keeps what is there, adds nothing but the new elements, and keeps
  the enumeration free of repetitions.\<close>

lemma py_eq_refl: "py_eq x x"
  by (cases x) auto

lemma py_eq_JStr: "py_eq y (JStr f) \<longleftrightarrow> y = JStr f"
  by (cases y) auto

lemma set_add_Inr:
  assumes "set_add s x = Inr s'"
  shows "set s \<subseteq> set s'" and "set s' \<subseteq> insert x (set s)" and "\<exists>y \<in> set s'. py_eq y x"
    and "distinct s \<Longrightarrow> distinct s'"
  using assms py_eq_refl [of x] by (auto simp: set_add_def split: if_splits)

lemma set_add_all_Inr:
  assumes "set_add_all s xs = Inr s'"
  shows "set s \<subseteq> set s' \<and> set s' \<subseteq> set s \<union> set xs
       \<and> (\<forall>x \<in> set xs. \<exists>y \<in> set s'. py_eq y x) \<and> (distinct s \<longrightarrow> distinct s')"
  using assms
proof (induction xs arbitrary: s)
  case Nil
  then show ?case by simp
next
  case (Cons x xs)
  then obtain s1 where a: "set_add s x = Inr s1" and b: "set_add_all s1 xs = Inr s'"
    by (auto split: sum.splits)
  note A = set_add_Inr [OF a] and B = Cons.IH [OF b]
  show ?case
  proof (intro conjI ballI impI)
    show "set s \<subseteq> set s'" using A(1) B by blast
    show "set s' \<subseteq> set s \<union> set (x # xs)" using A(2) B by auto
    show "distinct s'" if "distinct s" using that A(4) B by blast
    show "\<exists>y \<in> set s'. py_eq y z" if "z \<in> set (x # xs)" for z
    proof (cases "z = x")
      case True
      then show ?thesis using A(3) B by blast
    next
      case False
      then show ?thesis using that B by auto
    qed
  qed
qed

lemma set_update_Inr:
  assumes "set_update s v = Inr s'"
  shows "set s \<subseteq> set s' \<and> set s' \<subseteq> set s \<union> set (elements v)
       \<and> (\<forall>x \<in> set (elements v). \<exists>y \<in> set s'. py_eq y x) \<and> (distinct s \<longrightarrow> distinct s')"
proof -
  from assms obtain xs where "py_iter v = Inr xs" "set_add_all s xs = Inr s'"
    by (auto simp: set_update_def split: sum.splits)
  then show ?thesis using set_add_all_Inr [of s xs s'] by (simp add: elements_def)
qed

lemma review_agent_files:
  assumes "review_agent loads owner repo pr_no state acc a = Inr acc'"
  shows "set (all_files_reviewed acc) \<subseteq> set (all_files_reviewed acc')
       \<and> set (all_files_reviewed acc')
           \<subseteq> set (all_files_reviewed acc) \<union> set (contributed loads state a)
       \<and> (\<forall>x \<in> set (contributed loads state a). \<exists>y \<in> set (all_files_reviewed acc'). py_eq y x)
       \<and> (distinct (all_files_reviewed acc) \<longrightarrow> distinct (all_files_reviewed acc'))"
proof (cases "is_issue loads state a")
  case True
  then show ?thesis using review_agent_Inr(4) [OF assms] by (simp add: contributed_def)
next
  case False
  then have "set_update (all_files_reviewed acc) (file_list (payload loads state a))
                = Inr (all_files_reviewed acc')"
    using review_agent_Inr(4) [OF assms] by simp
  from set_update_Inr [OF this] show ?thesis using False by (simp add: contributed_def)
qed

lemma review_loop_files:
  assumes "review_loop loads owner repo pr_no state as acc = Inr acc'"
  shows "set (all_files_reviewed acc) \<subseteq> set (all_files_reviewed acc')
       \<and> set (all_files_reviewed acc')
           \<subseteq> set (all_files_reviewed acc) \<union> (\<Union>a \<in> set as. set (contributed loads state a))
       \<and> (\<forall>a \<in> set as. \<forall>x \<in> set (contributed loads state a).
             \<exists>y \<in> set (all_files_reviewed acc'). py_eq y x)
       \<and> (distinct (all_files_reviewed acc) \<longrightarrow> distinct (all_files_reviewed acc'))"
  using assms
proof (induction as arbitrary: acc)
  case Nil
  then show ?case by simp
next
  case (Cons a as)
  then obtain acc1 where
    s: "review_agent loads owner repo pr_no state acc a = Inr acc1"
    and l: "review_loop loads owner repo pr_no state as acc1 = Inr acc'"
    by (auto split: sum.splits)
  from review_agent_files [OF s] have
    A1: "set (all_files_reviewed acc) \<subseteq> set (all_files_reviewed acc1)"
    and A2: "set (all_files_reviewed acc1)
              \<subseteq> set (all_files_reviewed acc) \<union> set (contributed loads state a)"
    and A3: "\<forall>x \<in> set (contributed loads state a). \<exists>y \<in> set (all_files_reviewed acc1). py_eq y x"
    and A4: "distinct (all_files_reviewed acc) \<longrightarrow> distinct (all_files_reviewed acc1)"
    by blast+
  from Cons.IH [OF l] have
    B1: "set (all_files_reviewed acc1) \<subseteq> set (all_files_reviewed acc')"
    and B2: "set (all_files_reviewed acc')
              \<subseteq> set (all_files_reviewed acc1) \<union> (\<Union>a \<in> set as. set (contributed loads state a))"
    and B3: "\<forall>a \<in> set as. \<forall>x \<in> set (contributed loads state a).
               \<exists>y \<in> set (all_files_reviewed acc'). py_eq y x"
    and B4: "distinct (all_files_reviewed acc1) \<longrightarrow> distinct (all_files_reviewed acc')"
    by blast+
  have C1: "set (all_files_reviewed acc) \<subseteq> set (all_files_reviewed acc')"
    using A1 B1 by (rule subset_trans)
  have C2: "set (all_files_reviewed acc')
           \<subseteq> set (all_files_reviewed acc) \<union> (\<Union>a \<in> set (a # as). set (contributed loads state a))"
  proof
    fix x assume "x \<in> set (all_files_reviewed acc')"
    with B2 have "x \<in> set (all_files_reviewed acc1)
        \<or> x \<in> (\<Union>a \<in> set as. set (contributed loads state a))" by blast
    then show "x \<in> set (all_files_reviewed acc)
        \<union> (\<Union>a \<in> set (a # as). set (contributed loads state a))"
    proof
      assume "x \<in> set (all_files_reviewed acc1)"
      with A2 show ?thesis by (simp only: list.set) blast
    next
      assume "x \<in> (\<Union>a \<in> set as. set (contributed loads state a))"
      then show ?thesis by (simp only: list.set) blast
    qed
  qed
  have C3: "\<forall>b \<in> set (a # as). \<forall>x \<in> set (contributed loads state b).
             \<exists>y \<in> set (all_files_reviewed acc'). py_eq y x"
  proof (intro ballI)
    fix b x assume b: "b \<in> set (a # as)" and x: "x \<in> set (contributed loads state b)"
    show "\<exists>y \<in> set (all_files_reviewed acc'). py_eq y x"
    proof (cases "b \<in> set as")
      case True
      with B3 x show ?thesis by blast
    next
      case False
      with b have "b = a" by simp
      with A3 x obtain y where "y \<in> set (all_files_reviewed acc1)" "py_eq y x" by blast
      with B1 show ?thesis by blast
    qed
  qed
  have C4: "distinct (all_files_reviewed acc) \<longrightarrow> distinct (all_files_reviewed acc')"
    using A4 B4 by blast
  from C1 C2 C3 C4 show ?case by (intro conjI)
qed

lemma total_findings_of_counts:
  assumes "\<forall>e \<in> set rs. py_len (sr_findings e) = Inr (sr_findings_count e)"
  shows "total_findings_of rs = Inr (findings_total rs)"
  using assms by (induction rs) (auto simp: findings_total_def)

lemma entry_of_fields:
  "sr_agent (entry_of loads owner repo pr_no state a) = name a"
  "sr_findings (entry_of loads owner repo pr_no state a)
     = get (payload loads state a) ''findings'' (JArr [])"
  "sr_findings_count (entry_of loads owner repo pr_no state a)
     = findings_len (payload loads state a)"
  "sr_score (entry_of loads owner repo pr_no state a) = get (payload loads state a) ''score'' (JInt 0)"
  "sr_pr_accessed (entry_of loads owner repo pr_no state a) = reported_pr_accessed loads state a"
  "sr_files_reviewed (entry_of loads owner repo pr_no state a) = file_list (payload loads state a)"
  by (simp_all add: entry_of_def specialist_result_of_def reported_pr_accessed_def file_list_def)

lemma review_loop_counts:
  assumes "review_loop loads owner repo pr_no state as init_acc = Inr acc"
  shows "\<forall>e \<in> set (specialist_results acc). py_len (sr_findings e) = Inr (sr_findings_count e)"
  using review_loop_Inr(2,3) [OF assms] by (auto simp: init_acc_def entry_of_fields)

section \<open>What \<open>run_review\<close> returns\<close>

text \<open>
  The sum over the findings cannot raise once the loop has returned: every entry's
  \<open>findings\<close> already went through \<^verbatim>\<open>len\<close>.
\<close>

lemma review_loop_total:
  assumes "review_loop loads owner repo pr_no state specialist_agents init_acc = Inr acc"
  shows "total_findings_of (specialist_results acc) = Inr (findings_total (specialist_results acc))"
  using review_loop_counts [OF assms] by (rule total_findings_of_counts)

text \<open>
  \<^verbatim>\<open>run_review\<close> returns a report exactly when the loop over the specialists returns and the
  synthesis text yields a dict; the report's fields are then the following.
\<close>

lemma run_review_returns:
  assumes "review_loop loads owner repo pr_no state specialist_agents init_acc = Inr acc"
    and "parse_json_response loads (synthesis_text events state) = Inr (JObj d)"
  shows "\<exists>r. run_review loads owner repo pr_no now events state = Inr r"
  using assms review_loop_total [OF assms(1)]
  by (simp add: run_review_def init_acc_def synthesis_text_def Let_def)

lemma run_review_Inr:
  assumes "run_review loads owner repo pr_no now events state = Inr r"
  shows "\<exists>acc d.
      review_loop loads owner repo pr_no state specialist_agents init_acc = Inr acc
    \<and> parse_json_response loads (synthesis_text events state) = Inr (JObj d)
    \<and> synthesis_payload loads events state = d
    \<and> data_access_issues r = data_access_issues_acc acc
    \<and> files_reviewed r = all_files_reviewed acc
    \<and> specialist_reviews r = specialist_results acc
    \<and> data_access_status r = data_status_of (data_access_issues_acc acc) specialist_agents
    \<and> auto_approve r =
         (if findings_total (specialist_results acc) = 0
             \<and> data_status_of (data_access_issues_acc acc) specialist_agents = ''all_success''
          then JBool True else get d ''auto_approve'' (JBool False))
    \<and> final_decision r =
         (if findings_total (specialist_results acc) = 0
             \<and> data_status_of (data_access_issues_acc acc) specialist_agents = ''all_success''
          then JStr ''APPROVE'' else get d ''final_decision'' (JStr ''COMMENT''))
    \<and> summary r = get d ''summary'' (JStr ''Review completed'')
    \<and> overall_score r = get d ''overall_score'' (JInt 0)
    \<and> congratulations_message r = get d ''congratulations_message'' (JStr congratulations_default)
    \<and> critical_blockers r = get d ''critical_blockers'' (JArr [])
    \<and> important_improvements r = get d ''important_improvements'' (JArr [])
    \<and> optional_suggestions r = get d ''optional_suggestions'' (JArr [])
    \<and> inline_comments r = get d ''inline_comments'' (JArr [])
    \<and> rationale r = get d ''rationale'' (JStr [])
    \<and> next_steps r = get d ''next_steps'' (JArr [])
    \<and> pr r = owner @ ''/'' @ repo @ ''#'' @ str_int pr_no
    \<and> repository r = owner @ ''/'' @ repo
    \<and> pr_number r = pr_no
    \<and> timestamp r = now"
proof -
  from assms obtain acc where
    L: "review_loop loads owner repo pr_no state specialist_agents init_acc = Inr acc"
    by (simp add: run_review_def init_acc_def Let_def split: sum.splits)
  from assms L obtain d where
    P: "parse_json_response loads (synthesis_text events state) = Inr (JObj d)"
    by (simp add: run_review_def init_acc_def synthesis_text_def Let_def
        split: sum.splits json.splits)
  have S: "synthesis_payload loads events state = d"
    using P by (simp add: synthesis_payload_def)
  note T = review_loop_total [OF L]
  from assms L P T have
    "r = \<lparr>pr = owner @ ''/'' @ repo @ ''#'' @ str_int pr_no,
          repository = owner @ ''/'' @ repo,
          pr_number = pr_no,
          timestamp = now,
          data_access_status = data_status_of (data_access_issues_acc acc) specialist_agents,
          data_access_issues = data_access_issues_acc acc,
          files_reviewed = all_files_reviewed acc,
          summary = get d ''summary'' (JStr ''Review completed''),
          overall_score = get d ''overall_score'' (JInt 0),
          auto_approve =
            (if findings_total (specialist_results acc) = 0
                \<and> data_status_of (data_access_issues_acc acc) specialist_agents = ''all_success''
             then JBool True else get d ''auto_approve'' (JBool False)),
          congratulations_message =
            get d ''congratulations_message'' (JStr congratulations_default),
          final_decision =
            (if findings_total (specialist_results acc) = 0
                \<and> data_status_of (data_access_issues_acc acc) specialist_agents = ''all_success''
             then JStr ''APPROVE'' else get d ''final_decision'' (JStr ''COMMENT'')),
          critical_blockers = get d ''critical_blockers'' (JArr []),
          important_improvements = get d ''important_improvements'' (JArr []),
          optional_suggestions = get d ''optional_suggestions'' (JArr []),
          inline_comments = get d ''inline_comments'' (JArr []),
          specialist_reviews = specialist_results acc,
          rationale = get d ''rationale'' (JStr []),
          next_steps = get d ''next_steps'' (JArr [])\<rparr>"
    by (simp add: run_review_def init_acc_def synthesis_text_def Let_def)
  with L P S show ?thesis by simp
qed


lemma run_review_specialists:
  assumes "run_review loads owner repo pr_no now events state = Inr r"
  shows "data_access_issues r = concat (map (issue_of loads state) specialist_agents)"
    and "specialist_reviews r
           = map (entry_of loads owner repo pr_no state) (filter (has_output state) specialist_agents)"
    and "data_access_status r = data_status_of (data_access_issues r) specialist_agents"
proof -
  from run_review_Inr [OF assms] obtain acc where
    L: "review_loop loads owner repo pr_no state specialist_agents init_acc = Inr acc"
    and F: "data_access_issues r = data_access_issues_acc acc"
      "specialist_reviews r = specialist_results acc"
      "data_access_status r = data_status_of (data_access_issues_acc acc) specialist_agents"
    by blast
  show "data_access_issues r = concat (map (issue_of loads state) specialist_agents)"
    using review_loop_Inr(1) [OF L] F(1) by (simp add: init_acc_def)
  show "specialist_reviews r
           = map (entry_of loads owner repo pr_no state) (filter (has_output state) specialist_agents)"
    using review_loop_Inr(2) [OF L] F(2) by (simp add: init_acc_def)
  show "data_access_status r = data_status_of (data_access_issues r) specialist_agents"
    using F(1,3) by simp
qed

lemma run_review_files:
  assumes "run_review loads owner repo pr_no now events state = Inr r"
  shows "distinct (files_reviewed r)"
    and "set (files_reviewed r) \<subseteq> (\<Union>a \<in> set specialist_agents. set (contributed loads state a))"
    and "\<forall>a \<in> set specialist_agents. \<forall>x \<in> set (contributed loads state a).
           \<exists>y \<in> set (files_reviewed r). py_eq y x"
proof -
  from run_review_Inr [OF assms] obtain acc where
    L: "review_loop loads owner repo pr_no state specialist_agents init_acc = Inr acc"
    and F: "files_reviewed r = all_files_reviewed acc"
    by blast
  have I: "all_files_reviewed init_acc = []" by (simp add: init_acc_def)
  from review_loop_files [OF L] have
    B2: "set (all_files_reviewed acc)
           \<subseteq> set (all_files_reviewed init_acc)
               \<union> (\<Union>a \<in> set specialist_agents. set (contributed loads state a))"
    and B3: "\<forall>a \<in> set specialist_agents. \<forall>x \<in> set (contributed loads state a).
               \<exists>y \<in> set (all_files_reviewed acc). py_eq y x"
    and B4: "distinct (all_files_reviewed init_acc) \<longrightarrow> distinct (all_files_reviewed acc)"
    by blast+
  show "distinct (files_reviewed r)" using B4 I F by simp
  show "set (files_reviewed r) \<subseteq> (\<Union>a \<in> set specialist_agents. set (contributed loads state a))"
    using B2 I F by simp
  show "\<forall>a \<in> set specialist_agents. \<forall>x \<in> set (contributed loads state a).
           \<exists>y \<in> set (files_reviewed r). py_eq y x"
    using B3 F by simp
qed

lemma length_issues:
  "length (concat (map (issue_of loads state) as)) = length (filter (is_issue loads state) as)"
  by (induction as) (auto simp: issue_of_def is_issue_def)

lemma length_filter_all: "length (filter P xs) = length xs \<longleftrightarrow> (\<forall>x \<in> set xs. P x)"
proof (induction xs)
  case Nil
  then show ?case by simp
next
  case (Cons x xs)
  have "length (filter P xs) \<le> length xs" by (rule length_filter_le)
  then have "length (filter P xs) \<noteq> Suc (length xs)" by arith
  with Cons show ?case by auto
qed

lemma length_filter_none: "length (filter P xs) = 0 \<longleftrightarrow> (\<forall>x \<in> set xs. \<not> P x)"
  by (simp add: filter_empty_conv)

text \<open>The status in terms of the specialists that count as issues.\<close>

lemma data_access_status_issues:
  assumes "run_review loads owner repo pr_no now events state = Inr r"
  shows "data_access_status r =
     (if \<forall>a \<in> set specialist_agents. \<not> is_issue loads state a then ''all_success''
      else if \<forall>a \<in> set specialist_agents. is_issue loads state a then ''all_failed''
      else ''partial_failure'')"
  using run_review_specialists(1,3) [OF assms]
    length_filter_all [of "is_issue loads state" specialist_agents]
    length_filter_none [of "is_issue loads state" specialist_agents]
  by (simp add: data_status_of_def length_issues)





subsection \<open>Sample runs, evaluated\<close>

lemma map_sum_InrD: "map_sum id f x = Inr v \<Longrightarrow> \<exists>r. x = Inr r \<and> f r = v"
  by (cases x) auto



text \<open>
  Claim C2. When the findings counts of the specialist entries sum to 0 and the data access
  status is \<open>all_success\<close>, the report has \<open>auto_approve = true\<close> and
  \<open>final_decision = APPROVE\<close>, whatever the synthesis payload says. In the sample run the
  tech lead says \<open>auto_approve = false\<close> and \<open>REQUEST_CHANGES\<close>.
\<close>

theorem override_approves:
  assumes "run_review loads owner repo pr_no now events state = Inr r"
    and "findings_total (specialist_reviews r) = 0"
    and "data_access_status r = ''all_success''"
  shows "auto_approve r = JBool True \<and> final_decision r = JStr ''APPROVE''"
  using run_review_Inr [OF assms(1)] assms(2,3) by auto

lemma clean_run:
  "\<exists>r. run_review sample_loads ''acme'' ''shop'' 7 ''2024-05-01T12:00:00'' [] clean_state = Inr r
     \<and> findings_total (specialist_reviews r) = 0 \<and> data_access_status r = ''all_success''"
proof -
  have "map_sum id (\<lambda>r. (findings_total (specialist_reviews r), data_access_status r))
     (run_review sample_loads ''acme'' ''shop'' 7 ''2024-05-01T12:00:00'' [] clean_state)
     = Inr (0, ''all_success'')"
    by code_simp
  from map_sum_InrD [OF this] show ?thesis by auto
qed

theorem override_approves_witness:
  "map_sum id auto_approve
     (run_review sample_loads ''acme'' ''shop'' 7 ''2024-05-01T12:00:00'' [] clean_state)
   = Inr (JBool True)
   \<and> map_sum id final_decision
     (run_review sample_loads ''acme'' ''shop'' 7 ''2024-05-01T12:00:00'' [] clean_state)
   = Inr (JStr ''APPROVE'')
   \<and> get (synthesis_payload sample_loads [] clean_state) ''auto_approve'' (JBool False)
       = JBool False
   \<and> get (synthesis_payload sample_loads [] clean_state) ''final_decision'' (JStr ''COMMENT'')
       = JStr ''REQUEST_CHANGES''"
proof -
  from clean_run obtain r where
    r: "run_review sample_loads ''acme'' ''shop'' 7 ''2024-05-01T12:00:00'' [] clean_state = Inr r"
    and f: "findings_total (specialist_reviews r) = 0"
    and s: "data_access_status r = ''all_success''"
    by blast
  have p: "get (synthesis_payload sample_loads [] clean_state) ''auto_approve'' (JBool False)
       = JBool False
   \<and> get (synthesis_payload sample_loads [] clean_state) ''final_decision'' (JStr ''COMMENT'')
       = JStr ''REQUEST_CHANGES''"
    by code_simp
  from override_approves [OF r f s] r p show ?thesis by simp
qed

text \<open>
  Claim C1, as the aggregator implements it. The report's \<open>auto_approve\<close> is \<open>true\<close> when no
  specialist has findings and the status is \<open>all_success\<close>, and otherwise it is the
  synthesis payload's own \<open>auto_approve\<close> (\<open>false\<close> when absent): the aggregator only ever
  raises the field to \<open>true\<close>. So \<open>auto_approve = true\<close> implies that the run is clean with
  full data access or that the synthesis payload said \<open>true\<close>.
\<close>

theorem auto_approve_rule:
  assumes "run_review loads owner repo pr_no now events state = Inr r"
  shows "auto_approve r =
           (if findings_total (specialist_reviews r) = 0
               \<and> data_access_status r = ''all_success''
            then JBool True
            else get (synthesis_payload loads events state) ''auto_approve'' (JBool False))
       \<and> (auto_approve r = JBool True \<longrightarrow>
             findings_total (specialist_reviews r) = 0 \<and> data_access_status r = ''all_success''
           \<or> get (synthesis_payload loads events state) ''auto_approve'' (JBool False) = JBool True)"
  using run_review_Inr [OF assms] by auto

text \<open>
  The claim as stated fails: two specialists report \<open>pr_accessed = false\<close>, three are clean,
  no findings at all, the tech lead's payload says \<open>auto_approve = true\<close>, and the report
  has \<open>auto_approve = true\<close> with status \<open>partial_failure\<close>.
\<close>

theorem auto_approve_partial_counterexample:
  "map_sum id auto_approve
     (run_review sample_loads ''acme'' ''shop'' 7 ''2024-05-01T12:00:00'' [] partial_state)
   = Inr (JBool True)
   \<and> map_sum id data_access_status
     (run_review sample_loads ''acme'' ''shop'' 7 ''2024-05-01T12:00:00'' [] partial_state)
   = Inr ''partial_failure''
   \<and> map_sum id (findings_total \<circ> specialist_reviews)
     (run_review sample_loads ''acme'' ''shop'' 7 ''2024-05-01T12:00:00'' [] partial_state)
   = Inr 0
   \<and> map (reported_pr_accessed sample_loads partial_state) specialist_agents
   = [JBool False, JBool False, JBool True, JBool True, JBool True]"
  by code_simp

lemma partial_reject_run:
  "\<exists>r. run_review sample_loads ''acme'' ''shop'' 7 ''2024-05-01T12:00:00'' []
          (partial_state(''tech_lead_synthesis'' \<mapsto> reject_text)) = Inr r
     \<and> data_access_status r = ''partial_failure''"
proof -
  have "map_sum id data_access_status
     (run_review sample_loads ''acme'' ''shop'' 7 ''2024-05-01T12:00:00'' []
          (partial_state(''tech_lead_synthesis'' \<mapsto> reject_text)))
     = Inr ''partial_failure''"
    by code_simp
  from map_sum_InrD [OF this] show ?thesis by auto
qed

theorem auto_approve_rule_witness:
  "map_sum id auto_approve
     (run_review sample_loads ''acme'' ''shop'' 7 ''2024-05-01T12:00:00'' []
        (partial_state(''tech_lead_synthesis'' \<mapsto> reject_text)))
   = Inr (JBool False)"
proof -
  from partial_reject_run obtain r where
    r: "run_review sample_loads ''acme'' ''shop'' 7 ''2024-05-01T12:00:00'' []
          (partial_state(''tech_lead_synthesis'' \<mapsto> reject_text)) = Inr r"
    and s: "data_access_status r = ''partial_failure''"
    by blast
  have p: "get (synthesis_payload sample_loads []
              (partial_state(''tech_lead_synthesis'' \<mapsto> reject_text)))
            ''auto_approve'' (JBool False) = JBool False"
    by code_simp
  from auto_approve_rule [OF r] s p have "auto_approve r = JBool False" by simp
  with r show ?thesis by simp
qed

section \<open>The specialists in the report\<close>

text \<open>
  An issue message names its agent: the names of the five agents are distinct and contain
  no colon, so a message in the report belongs to the agent whose name it starts with.
\<close>

lemma has_output_iff:
  "has_output state a \<longleftrightarrow> (\<exists>t. state (review_key a) = Some t \<and> t \<noteq> [])"
  by (auto simp: has_output_def review_text_def split: option.splits)

lemma name_inj:
  assumes "a \<in> set specialist_agents" "b \<in> set specialist_agents" "name a = name b"
  shows "a = b"
  using assms distinct_specialist_names by (auto simp: distinct_map inj_on_def)

lemma names_without_colon: "\<forall>a \<in> set specialist_agents. CHR '':'' \<notin> set (name a)"
  by (simp add: specialist_agents_def create_specialist_agent_def)

lemma before_colon:
  assumes "CHR '':'' \<notin> set na"
  shows "takeWhile (\<lambda>c. c \<noteq> CHR '':'') (na @ CHR '':'' # s) = na"
  using assms by (induction na) auto

lemma message_names:
  assumes "CHR '':'' \<notin> set na" "CHR '':'' \<notin> set nb"
    and "na @ CHR '':'' # s = nb @ CHR '':'' # s'"
  shows "na = nb"
  using before_colon [OF assms(1), of s] before_colon [OF assms(2), of s'] assms(3) by simp

lemma issue_of_cases:
  "m \<in> set (issue_of loads state b) \<Longrightarrow>
   m = name b @ '': No review output'' \<or> m = name b @ '': Could not access PR data''"
  by (auto simp: issue_of_def split: if_splits)

lemma issue_message_owner:
  assumes "run_review loads owner repo pr_no now events state = Inr r"
    and "a \<in> set specialist_agents"
    and "s \<in> {'': No review output'', '': Could not access PR data''}"
  shows "name a @ s \<in> set (data_access_issues r) \<longleftrightarrow> name a @ s \<in> set (issue_of loads state a)"
proof
  assume "name a @ s \<in> set (data_access_issues r)"
  then obtain b where b: "b \<in> set specialist_agents" "name a @ s \<in> set (issue_of loads state b)"
    using run_review_specialists(1) [OF assms(1)] by auto
  from issue_of_cases [OF b(2)] assms(3) obtain t t' where
    "name a @ CHR '':'' # t = name b @ CHR '':'' # t'"
    by auto
  with names_without_colon assms(2) b(1) have "name a = name b"
    using message_names by blast
  with assms(2) b(1) have "a = b" by (rule name_inj)
  with b(2) show "name a @ s \<in> set (issue_of loads state a)" by simp
next
  assume "name a @ s \<in> set (issue_of loads state a)"
  then show "name a @ s \<in> set (data_access_issues r)"
    using run_review_specialists(1) [OF assms(1)] assms(2) by auto
qed



lemma scored_run:
  "\<exists>r. run_review sample_loads ''acme'' ''shop'' 7 ''2024-05-01T12:00:00'' [] scored_state = Inr r"
proof -
  have "map_sum id pr_number
     (run_review sample_loads ''acme'' ''shop'' 7 ''2024-05-01T12:00:00'' [] scored_state)
     = Inr 7"
    by code_simp
  from map_sum_InrD [OF this] show ?thesis by blast
qed

lemma no_output_iff:
  "\<not> has_output state a \<longleftrightarrow> state (review_key a) = Some [] \<or> state (review_key a) = None"
  by (auto simp: has_output_iff)

lemma run_review_counts:
  assumes "run_review loads owner repo pr_no now events state = Inr r"
  shows "\<forall>e \<in> set (specialist_reviews r). py_len (sr_findings e) = Inr (sr_findings_count e)"
proof -
  from run_review_Inr [OF assms] obtain acc where
    "review_loop loads owner repo pr_no state specialist_agents init_acc = Inr acc"
    "specialist_reviews r = specialist_results acc"
    by blast
  then show ?thesis using review_loop_counts by simp
qed

text \<open>
  Claim C5, as the aggregator implements it. \<open>files_reviewed\<close> lists each of its elements
  once, and a file path is in it iff it is in the file list (\<open>files_in_diff\<close>, or
  \<open>files_reviewed\<close> when that is absent) of a specialist that left output and whose
  \<open>pr_accessed\<close> is true or absent. The file list of a specialist that reports
  \<open>pr_accessed = false\<close>, or left no output, does not contribute. (For elements that are
  not strings the same holds up to Python's equality, which identifies \<open>True\<close> with \<open>1\<close>:
  the last two conjuncts.)
\<close>

theorem files_reviewed_union:
  assumes "run_review loads owner repo pr_no now events state = Inr r"
  shows "distinct (files_reviewed r)
       \<and> (\<forall>f. JStr f \<in> set (files_reviewed r) \<longleftrightarrow>
             (\<exists>a \<in> set specialist_agents. JStr f \<in> set (contributed loads state a)))
       \<and> set (files_reviewed r) \<subseteq> (\<Union>a \<in> set specialist_agents. set (contributed loads state a))
       \<and> (\<forall>a \<in> set specialist_agents. \<forall>x \<in> set (contributed loads state a).
             \<exists>y \<in> set (files_reviewed r). py_eq y x)"
proof (intro conjI allI)
  note F = run_review_files [OF assms]
  show "distinct (files_reviewed r)" by (rule F(1))
  show "set (files_reviewed r) \<subseteq> (\<Union>a \<in> set specialist_agents. set (contributed loads state a))"
    by (rule F(2))
  show "\<forall>a \<in> set specialist_agents. \<forall>x \<in> set (contributed loads state a).
             \<exists>y \<in> set (files_reviewed r). py_eq y x"
    by (rule F(3))
  show "JStr f \<in> set (files_reviewed r) \<longleftrightarrow>
             (\<exists>a \<in> set specialist_agents. JStr f \<in> set (contributed loads state a))" for f
  proof
    assume "JStr f \<in> set (files_reviewed r)"
    with F(2) show "\<exists>a \<in> set specialist_agents. JStr f \<in> set (contributed loads state a)"
      by blast
  next
    assume "\<exists>a \<in> set specialist_agents. JStr f \<in> set (contributed loads state a)"
    with F(3) obtain y where "y \<in> set (files_reviewed r)" "py_eq y (JStr f)" by blast
    then show "JStr f \<in> set (files_reviewed r)" by (simp add: py_eq_JStr)
  qed
qed

theorem files_reviewed_union_witness:
  "map_sum id ((\<in>) (JStr ''c.py'') \<circ> set \<circ> files_reviewed)
     (run_review sample_loads ''acme'' ''shop'' 7 ''2024-05-01T12:00:00'' [] scored_state)
   = Inr True
   \<and> map_sum id ((\<in>) (JStr ''b.py'') \<circ> set \<circ> files_reviewed)
     (run_review sample_loads ''acme'' ''shop'' 7 ''2024-05-01T12:00:00'' [] scored_state)
   = Inr False
   \<and> map_sum id (distinct \<circ> files_reviewed)
     (run_review sample_loads ''acme'' ''shop'' 7 ''2024-05-01T12:00:00'' [] scored_state)
   = Inr True"
proof -
  from scored_run obtain r where
    r: "run_review sample_loads ''acme'' ''shop'' 7 ''2024-05-01T12:00:00'' [] scored_state = Inr r"
    ..
  have c: "\<exists>a \<in> set specialist_agents. JStr ''c.py'' \<in> set (contributed sample_loads scored_state a)"
    by code_simp
  have b: "\<not> (\<exists>a \<in> set specialist_agents.
              JStr ''b.py'' \<in> set (contributed sample_loads scored_state a))"
    by code_simp
  from files_reviewed_union [OF r] c b
  have "JStr ''c.py'' \<in> set (files_reviewed r)" "JStr ''b.py'' \<notin> set (files_reviewed r)"
    "distinct (files_reviewed r)"
    by blast+
  with r show ?thesis by simp
qed

text \<open>
  The claim as stated fails: the first two specialists report the file \<open>b.py\<close> together
  with \<open>pr_accessed = false\<close>, and \<open>b.py\<close> is not in the report's \<open>files_reviewed\<close>.
\<close>

theorem files_reviewed_counterexample:
  "map_sum id files_reviewed
     (run_review sample_loads ''acme'' ''shop'' 7 ''2024-05-01T12:00:00'' [] partial_state)
   = Inr [JStr ''a.py'']
   \<and> map (file_list \<circ> payload sample_loads partial_state) specialist_agents
   = [JArr [JStr ''b.py''], JArr [JStr ''b.py''],
      JArr [JStr ''a.py''], JArr [JStr ''a.py''], JArr [JStr ''a.py'']]"
  by code_simp

text \<open>
  Claim C8, as the aggregator implements it. The score of an entry is the \<open>score\<close> field of
  the specialist's payload, whatever JSON value it holds, and \<open>0\<close> when the payload has no
  such field; nothing checks a range. In the sample run the first payload carries the
  score 11 and the others none.
\<close>

theorem score_passthrough:
  assumes "run_review loads owner repo pr_no now events state = Inr r"
  shows "map sr_agent (specialist_reviews r) = map name (filter (has_output state) specialist_agents)
       \<and> map sr_score (specialist_reviews r)
           = map (\<lambda>a. get (payload loads state a) ''score'' (JInt 0))
               (filter (has_output state) specialist_agents)"
  using run_review_specialists(2) [OF assms] by (simp add: entry_of_fields comp_def)

theorem score_passthrough_witness:
  "map_sum id (map sr_score \<circ> specialist_reviews)
     (run_review sample_loads ''acme'' ''shop'' 7 ''2024-05-01T12:00:00'' [] scored_state)
   = Inr [JInt 11, JInt 0, JInt 0, JInt 0, JInt 0]"
proof -
  from scored_run obtain r where
    r: "run_review sample_loads ''acme'' ''shop'' 7 ''2024-05-01T12:00:00'' [] scored_state = Inr r"
    ..
  have "map (\<lambda>a. get (payload sample_loads scored_state a) ''score'' (JInt 0))
          (filter (has_output scored_state) specialist_agents)
        = [JInt 11, JInt 0, JInt 0, JInt 0, JInt 0]"
    by code_simp
  with score_passthrough [OF r] have "map sr_score (specialist_reviews r)
        = [JInt 11, JInt 0, JInt 0, JInt 0, JInt 0]" by simp
  with r show ?thesis by simp
qed

text \<open>
  The claim as stated fails: a specialist that answers in prose gets the fallback payload,
  which has no score, and its entry in the report has score 0.
\<close>

theorem score_counterexample:
  "map_sum id (map sr_score \<circ> specialist_reviews)
     (run_review sample_loads ''acme'' ''shop'' 7 ''2024-05-01T12:00:00'' [] prose_state)
   = Inr [JInt 0]
   \<and> parse_json_response sample_loads prose_text = Inr (fallback prose_text)"
  by code_simp

text \<open>
  Claim C10. \<open>specialist_reviews\<close> has one entry for each specialist with non-empty
  output, in the agents' order, and so at most five. A specialist whose stored output is
  the empty string (or that has none stored) has the issue \<open>No review output\<close> recorded, has no
  entry, and contributes no files. Every entry's \<open>findings_count\<close> is the length of its
  \<open>findings\<close>.
\<close>

theorem empty_output_omitted:
  assumes "run_review loads owner repo pr_no now events state = Inr r"
  shows "map sr_agent (specialist_reviews r) = map name (filter (has_output state) specialist_agents)
       \<and> length (specialist_reviews r) \<le> 5
       \<and> (\<forall>a \<in> set specialist_agents.
             state (review_key a) = Some [] \<or> state (review_key a) = None \<longrightarrow>
               name a @ '': No review output'' \<in> set (data_access_issues r)
             \<and> name a \<notin> set (map sr_agent (specialist_reviews r))
             \<and> contributed loads state a = [])
       \<and> (\<forall>e \<in> set (specialist_reviews r). py_len (sr_findings e) = Inr (sr_findings_count e))"
proof (intro conjI ballI impI)
  note S = run_review_specialists [OF assms]
  show A: "map sr_agent (specialist_reviews r)
      = map name (filter (has_output state) specialist_agents)"
    using S(2) by (simp add: entry_of_fields comp_def)
  have "length (specialist_reviews r) = length (filter (has_output state) specialist_agents)"
    using S(2) by simp
  also have "\<dots> \<le> length specialist_agents" by (rule length_filter_le)
  finally show "length (specialist_reviews r) \<le> 5" by (simp add: length_specialist_agents)
  show "py_len (sr_findings e) = Inr (sr_findings_count e)" if "e \<in> set (specialist_reviews r)" for e
    using run_review_counts [OF assms] that by blast
next
  fix a
  assume a: "a \<in> set specialist_agents"
    and "state (review_key a) = Some [] \<or> state (review_key a) = None"
  then have n: "\<not> has_output state a" by (simp add: no_output_iff)
  note S = run_review_specialists [OF assms]
  from n have "issue_of loads state a = [name a @ '': No review output'']"
    by (simp add: issue_of_def)
  with a show "name a @ '': No review output'' \<in> set (data_access_issues r)"
    using S(1) by force
  show "contributed loads state a = []" using n by (simp add: contributed_def is_issue_def)
  show "name a \<notin> set (map sr_agent (specialist_reviews r))"
  proof
    assume "name a \<in> set (map sr_agent (specialist_reviews r))"
    then have "name a \<in> name ` set (filter (has_output state) specialist_agents)"
      using S(2) by (simp add: entry_of_fields comp_def)
    then obtain b where b: "b \<in> set specialist_agents" "has_output state b" "name a = name b"
      by auto
    with a have "a = b" using name_inj by blast
    with b(2) n show False by simp
  qed
qed

theorem empty_output_omitted_witness:
  "map_sum id (map sr_agent \<circ> specialist_reviews)
     (run_review sample_loads ''acme'' ''shop'' 7 ''2024-05-01T12:00:00'' [] prose_state)
   = Inr [''ProductOwner'']
   \<and> map_sum id ((\<in>) ''SeniorEngineer: No review output'' \<circ> set \<circ> data_access_issues)
     (run_review sample_loads ''acme'' ''shop'' 7 ''2024-05-01T12:00:00'' [] prose_state)
   = Inr True
   \<and> prose_state ''seniorengineer_review'' = Some []"
proof -
  have "map_sum id pr_number
     (run_review sample_loads ''acme'' ''shop'' 7 ''2024-05-01T12:00:00'' [] prose_state)
     = Inr 7"
    by code_simp
  from map_sum_InrD [OF this] obtain r where
    r: "run_review sample_loads ''acme'' ''shop'' 7 ''2024-05-01T12:00:00'' [] prose_state = Inr r"
    by blast
  have f: "map name (filter (has_output prose_state) specialist_agents) = [''ProductOwner'']"
    by code_simp
  have a: "specialist_agents ! 1 \<in> set specialist_agents"
    by (simp add: length_specialist_agents)
  have k: "review_key (specialist_agents ! 1) = ''seniorengineer_review''"
    "name (specialist_agents ! 1) = ''SeniorEngineer''"
    by code_simp+
  have e: "prose_state ''seniorengineer_review'' = Some []"
    by (simp add: prose_state_def)
  from empty_output_omitted [OF r] a k e f
  have "map sr_agent (specialist_reviews r) = [''ProductOwner'']"
    "''SeniorEngineer'' @ '': No review output'' \<in> set (data_access_issues r)"
    by auto
  with r e show ?thesis by simp
qed

text \<open>The fallback payload of unparseable output has no \<open>pr_accessed\<close> field.\<close>

lemma fallback_payload:
  assumes "unparseable loads (review_text state a)"
  shows "payload loads state a
     = [(''summary'', JStr (review_text state a)), (''findings'', JArr []),
        (''recommendation'', JStr ''COMMENT'')]"
    and "map_of (payload loads state a) ''pr_accessed'' = None"
  using assms by (simp_all add: payload_def parse_json_response_cases fallback_def)

text \<open>
  Claim C9. A specialist with output whose payload has no \<open>pr_accessed\<close> field counts as
  having had access: the report has no issue message for it, the status is
  \<open>all_success\<close> iff no other specialist is an issue, its entry has \<open>pr_accessed = true\<close> and
  as file list \<open>files_in_diff\<close>, or \<open>files_reviewed\<close> when that is absent, or the empty list,
  and every element of that list is in the report's \<open>files_reviewed\<close> (a string as itself, any
  other hashable value up to Python's equality). In the sample run the first specialist's
  payload is JSON without the field, and the fifth answered in prose.
\<close>

theorem absent_pr_accessed_is_access:
  assumes "run_review loads owner repo pr_no now events state = Inr r"
    and "a \<in> set specialist_agents"
    and "has_output state a"
    and "map_of (payload loads state a) ''pr_accessed'' = None"
  shows "name a @ '': Could not access PR data'' \<notin> set (data_access_issues r)
       \<and> name a @ '': No review output'' \<notin> set (data_access_issues r)
       \<and> \<not> is_issue loads state a
       \<and> (data_access_status r = ''all_success'' \<longleftrightarrow>
            (\<forall>b \<in> set specialist_agents. b \<noteq> a \<longrightarrow> \<not> is_issue loads state b))
       \<and> entry_of loads owner repo pr_no state a \<in> set (specialist_reviews r)
       \<and> sr_pr_accessed (entry_of loads owner repo pr_no state a) = JBool True
       \<and> sr_files_reviewed (entry_of loads owner repo pr_no state a)
           = get (payload loads state a) ''files_in_diff''
               (get (payload loads state a) ''files_reviewed'' (JArr []))
       \<and> (\<forall>x \<in> set (elements (sr_files_reviewed (entry_of loads owner repo pr_no state a))).
             \<exists>y \<in> set (files_reviewed r). py_eq y x)
       \<and> (\<forall>f. JStr f \<in> set (elements (sr_files_reviewed (entry_of loads owner repo pr_no state a)))
             \<longrightarrow> JStr f \<in> set (files_reviewed r))"
proof -
  have T: "reported_pr_accessed loads state a = JBool True"
    using assms(4) by (simp add: reported_pr_accessed_def get_def)
  then have N: "\<not> is_issue loads state a" using assms(3) by (simp add: is_issue_def)
  then have I: "issue_of loads state a = []" by (simp add: issue_of_def is_issue_def)
  have C: "contributed loads state a = elements (file_list (payload loads state a))"
    using N by (simp add: contributed_def)
  have M: "name a @ s \<notin> set (data_access_issues r)"
    if "s \<in> {'': No review output'', '': Could not access PR data''}" for s
    using issue_message_owner [OF assms(1,2) that] I by simp
  have S: "data_access_status r = ''all_success'' \<longleftrightarrow>
            (\<forall>b \<in> set specialist_agents. b \<noteq> a \<longrightarrow> \<not> is_issue loads state b)"
  proof -
    have "data_access_status r = ''all_success''
        \<longleftrightarrow> (\<forall>b \<in> set specialist_agents. \<not> is_issue loads state b)"
      using data_access_status_issues [OF assms(1)] by simp
    with N show ?thesis by auto
  qed
  have E: "entry_of loads owner repo pr_no state a \<in> set (specialist_reviews r)"
    using run_review_specialists(2) [OF assms(1)] assms(2,3) by simp
  have F: "sr_files_reviewed (entry_of loads owner repo pr_no state a)
      = file_list (payload loads state a)"
    by (simp add: entry_of_fields)
  have X: "\<forall>x \<in> set (elements (file_list (payload loads state a))).
             \<exists>y \<in> set (files_reviewed r). py_eq y x"
    using run_review_files(3) [OF assms(1)] assms(2) C by metis
  have Y: "\<forall>f. JStr f \<in> set (elements (file_list (payload loads state a)))
             \<longrightarrow> JStr f \<in> set (files_reviewed r)"
    using X by (auto simp: py_eq_JStr)
  show ?thesis
    using M [of "'': No review output''"] M [of "'': Could not access PR data''"] N S E T X Y
    by (simp add: entry_of_fields file_list_def)
qed


theorem absent_pr_accessed_is_access_witness:
  "map_sum id ((\<in>) ''ProductOwner: Could not access PR data'' \<circ> set \<circ> data_access_issues)
     (run_review sample_loads ''acme'' ''shop'' 7 ''2024-05-01T12:00:00'' [] scored_state)
   = Inr False
   \<and> map_sum id ((\<in>) (JStr ''c.py'') \<circ> set \<circ> files_reviewed)
     (run_review sample_loads ''acme'' ''shop'' 7 ''2024-05-01T12:00:00'' [] scored_state)
   = Inr True
   \<and> map_sum id ((\<in>) ''QAEngineer: Could not access PR data'' \<circ> set \<circ> data_access_issues)
     (run_review sample_loads ''acme'' ''shop'' 7 ''2024-05-01T12:00:00'' [] scored_state)
   = Inr False
   \<and> payload sample_loads scored_state (specialist_agents ! 4)
   = [(''summary'', JStr prose_text), (''findings'', JArr []),
      (''recommendation'', JStr ''COMMENT'')]"
proof -
  from scored_run obtain r where
    r: "run_review sample_loads ''acme'' ''shop'' 7 ''2024-05-01T12:00:00'' [] scored_state = Inr r"
    ..
  have a0: "specialist_agents ! 0 \<in> set specialist_agents"
    and a4: "specialist_agents ! 4 \<in> set specialist_agents"
    by (simp_all add: length_specialist_agents)
  have h0: "has_output scored_state (specialist_agents ! 0)"
    and h4: "has_output scored_state (specialist_agents ! 4)"
    by code_simp+
  have m0: "map_of (payload sample_loads scored_state (specialist_agents ! 0)) ''pr_accessed'' = None"
    by code_simp
  have u4: "unparseable sample_loads (review_text scored_state (specialist_agents ! 4))"
    by code_simp
  note m4 = fallback_payload(2) [OF u4]
  have t4: "review_text scored_state (specialist_agents ! 4) = prose_text"
    by code_simp
  have n: "name (specialist_agents ! 0) = ''ProductOwner''"
    "name (specialist_agents ! 4) = ''QAEngineer''"
    by code_simp+
  have c: "JStr ''c.py'' \<in> set (elements (sr_files_reviewed
      (entry_of sample_loads ''acme'' ''shop'' 7 scored_state (specialist_agents ! 0))))"
    by code_simp
  from absent_pr_accessed_is_access [OF r a0 h0 m0] n c
  have "''ProductOwner: Could not access PR data'' \<notin> set (data_access_issues r)"
    "JStr ''c.py'' \<in> set (files_reviewed r)"
    by auto
  moreover from absent_pr_accessed_is_access [OF r a4 h4 m4] n
  have "''QAEngineer: Could not access PR data'' \<notin> set (data_access_issues r)"
    by auto
  ultimately show ?thesis using r fallback_payload(1) [OF u4] t4 by simp
qed

section \<open>The synthesis in the report\<close>

lemma unparseable_fallback:
  "unparseable loads t \<Longrightarrow> parse_json_response loads t = Inr (fallback t)"
  by (simp add: parse_json_response_cases)

text \<open>
  With the loop over the specialists returned, an exception of the extractor on the synthesis
  text leaves \<^verbatim>\<open>run_review\<close>, and so does the \<^verbatim>\<open>AttributeError\<close> of \<^verbatim>\<open>.get\<close> on a decoded
  value that is not a dict.
\<close>

lemma run_review_synthesis_raises:
  assumes "review_loop loads owner repo pr_no state specialist_agents init_acc = Inr acc"
  shows "parse_json_response loads (synthesis_text events state) = Inl e \<Longrightarrow>
           run_review loads owner repo pr_no now events state = Inl e"
    and "parse_json_response loads (synthesis_text events state) = Inr v \<Longrightarrow>
           \<forall>d. v \<noteq> JObj d \<Longrightarrow>
           run_review loads owner repo pr_no now events state = Inl AttributeError"
  using assms
  by (auto simp: run_review_def init_acc_def synthesis_text_def Let_def split: json.splits)

lemma no_specialist_output:
  "review_loop loads owner repo pr_no [''tech_lead_synthesis'' \<mapsto> x] specialist_agents init_acc
     = Inr \<lparr>specialist_results = [], all_files_reviewed = [],
            data_access_issues_acc =
              [''ProductOwner: No review output'', ''SeniorEngineer: No review output'',
               ''SecurityEngineer: No review output'', ''DevOpsEngineer: No review output'',
               ''QAEngineer: No review output'']\<rparr>"
  by (simp add: specialist_agents_def create_specialist_agent_def review_agent_def
      review_text_def review_key_def lower_def lower_char_def init_acc_def)

text \<open>
  Claim C6, as the aggregator implements it. Let the loop over the specialists have returned.
  The synthesis text is the stored \<open>tech_lead_synthesis\<close>, and when the session has none, the
  text of the last final response, or the empty text. Whatever dict is extracted from the
  synthesis text, a report is returned in which each synthesis field is the dict's value
  when the field is present and its default otherwise (\<open>auto_approve\<close> and \<open>final_decision\<close>
  subject to the override). When nothing can be extracted from the text, the dict is the
  fallback payload: the lists are empty, the score is 0, the strings are the fixed
  defaults, and \<open>summary\<close>, which the fallback payload carries, is the raw text. A report is
  not returned in two cases only: the extractor raises on the synthesis text (the decoder
  raised something other than \<^verbatim>\<open>JSONDecodeError\<close>), and \<^verbatim>\<open>run_review\<close> raises the same; or
  the decoded value is not a dict.
\<close>

theorem synthesis_defaults:
  assumes "review_loop loads owner repo pr_no state specialist_agents init_acc = Inr acc"
  shows "(\<forall>d. parse_json_response loads (synthesis_text events state) = Inr (JObj d) \<longrightarrow>
           (\<exists>r. run_review loads owner repo pr_no now events state = Inr r
              \<and> summary r = get d ''summary'' (JStr ''Review completed'')
              \<and> overall_score r = get d ''overall_score'' (JInt 0)
              \<and> congratulations_message r
                  = get d ''congratulations_message'' (JStr congratulations_default)
              \<and> critical_blockers r = get d ''critical_blockers'' (JArr [])
              \<and> important_improvements r = get d ''important_improvements'' (JArr [])
              \<and> optional_suggestions r = get d ''optional_suggestions'' (JArr [])
              \<and> inline_comments r = get d ''inline_comments'' (JArr [])
              \<and> rationale r = get d ''rationale'' (JStr [])
              \<and> next_steps r = get d ''next_steps'' (JArr [])
              \<and> auto_approve r =
                    (if findings_total (specialist_reviews r) = 0
                        \<and> data_access_status r = ''all_success''
                     then JBool True else get d ''auto_approve'' (JBool False))
              \<and> final_decision r =
                    (if findings_total (specialist_reviews r) = 0
                        \<and> data_access_status r = ''all_success''
                     then JStr ''APPROVE'' else get d ''final_decision'' (JStr ''COMMENT''))))
       \<and> (unparseable loads (synthesis_text events state) \<longrightarrow>
           (\<exists>r. run_review loads owner repo pr_no now events state = Inr r
              \<and> summary r = JStr (synthesis_text events state)
              \<and> overall_score r = JInt 0
              \<and> congratulations_message r = JStr congratulations_default
              \<and> critical_blockers r = JArr []
              \<and> important_improvements r = JArr []
              \<and> optional_suggestions r = JArr []
              \<and> inline_comments r = JArr []
              \<and> rationale r = JStr []
              \<and> next_steps r = JArr []
              \<and> auto_approve r =
                    JBool (findings_total (specialist_reviews r) = 0
                           \<and> data_access_status r = ''all_success'')
              \<and> final_decision r =
                    (if findings_total (specialist_reviews r) = 0
                        \<and> data_access_status r = ''all_success''
                     then JStr ''APPROVE'' else JStr ''COMMENT'')))
       \<and> (state ''tech_lead_synthesis'' = None \<longrightarrow>
             synthesis_text events state = final_response_of events)
       \<and> (\<forall>t. state ''tech_lead_synthesis'' = Some t \<longrightarrow> synthesis_text events state = t)
       \<and> (\<forall>e. parse_json_response loads (synthesis_text events state) = Inl e \<longrightarrow>
             run_review loads owner repo pr_no now events state = Inl e)
       \<and> (\<forall>v. parse_json_response loads (synthesis_text events state) = Inr v
               \<and> (\<forall>d. v \<noteq> JObj d) \<longrightarrow>
             run_review loads owner repo pr_no now events state = Inl AttributeError)"
proof -
  have A: "\<exists>r. run_review loads owner repo pr_no now events state = Inr r
              \<and> summary r = get d ''summary'' (JStr ''Review completed'')
              \<and> overall_score r = get d ''overall_score'' (JInt 0)
              \<and> congratulations_message r
                  = get d ''congratulations_message'' (JStr congratulations_default)
              \<and> critical_blockers r = get d ''critical_blockers'' (JArr [])
              \<and> important_improvements r = get d ''important_improvements'' (JArr [])
              \<and> optional_suggestions r = get d ''optional_suggestions'' (JArr [])
              \<and> inline_comments r = get d ''inline_comments'' (JArr [])
              \<and> rationale r = get d ''rationale'' (JStr [])
              \<and> next_steps r = get d ''next_steps'' (JArr [])
              \<and> auto_approve r =
                    (if findings_total (specialist_reviews r) = 0
                        \<and> data_access_status r = ''all_success''
                     then JBool True else get d ''auto_approve'' (JBool False))
              \<and> final_decision r =
                    (if findings_total (specialist_reviews r) = 0
                        \<and> data_access_status r = ''all_success''
                     then JStr ''APPROVE'' else get d ''final_decision'' (JStr ''COMMENT''))"
    if P: "parse_json_response loads (synthesis_text events state) = Inr (JObj d)" for d
  proof -
    from run_review_returns [OF assms P] obtain r where
      r: "run_review loads owner repo pr_no now events state = Inr r" by blast
    from run_review_Inr [OF r] P show ?thesis using r by auto
  qed
  have B: "\<exists>r. run_review loads owner repo pr_no now events state = Inr r
              \<and> summary r = JStr (synthesis_text events state)
              \<and> overall_score r = JInt 0
              \<and> congratulations_message r = JStr congratulations_default
              \<and> critical_blockers r = JArr []
              \<and> important_improvements r = JArr []
              \<and> optional_suggestions r = JArr []
              \<and> inline_comments r = JArr []
              \<and> rationale r = JStr []
              \<and> next_steps r = JArr []
              \<and> auto_approve r =
                    JBool (findings_total (specialist_reviews r) = 0
                           \<and> data_access_status r = ''all_success'')
              \<and> final_decision r =
                    (if findings_total (specialist_reviews r) = 0
                        \<and> data_access_status r = ''all_success''
                     then JStr ''APPROVE'' else JStr ''COMMENT'')"
    if U: "unparseable loads (synthesis_text events state)"
  proof -
    have P: "parse_json_response loads (synthesis_text events state)
        = Inr (JObj [(''summary'', JStr (synthesis_text events state)), (''findings'', JArr []),
                     (''recommendation'', JStr ''COMMENT'')])"
      using unparseable_fallback [OF U] by (simp add: fallback_def)
    from A [OF P] show ?thesis by (auto simp: get_def)
  qed
  have C: "synthesis_text events state = final_response_of events"
    if "state ''tech_lead_synthesis'' = None"
    using that by (simp add: synthesis_text_def tech_lead_text_of_def)
  have C': "synthesis_text events state = t" if "state ''tech_lead_synthesis'' = Some t" for t
    using that by (simp add: synthesis_text_def tech_lead_text_of_def)
  note D = run_review_synthesis_raises [OF assms, of events _ now]
  show ?thesis
  proof (intro conjI allI impI)
    fix e assume "parse_json_response loads (synthesis_text events state) = Inl e"
    then show "run_review loads owner repo pr_no now events state = Inl e" by (rule D(1))
  next
    fix v assume "parse_json_response loads (synthesis_text events state) = Inr v
               \<and> (\<forall>d. v \<noteq> JObj d)"
    then show "run_review loads owner repo pr_no now events state = Inl AttributeError"
      using D(2) by blast
  qed (use A B C C' in blast)+
qed


theorem synthesis_defaults_witness:
  "map_sum id summary
     (run_review sample_loads ''acme'' ''shop'' 7 ''2024-05-01T12:00:00'' [] scored_state)
   = Inr (JStr prose_text)
   \<and> map_sum id next_steps
     (run_review sample_loads ''acme'' ''shop'' 7 ''2024-05-01T12:00:00'' [] scored_state)
   = Inr (JArr [])
   \<and> map_sum id summary
     (run_review sample_loads ''acme'' ''shop'' 7 ''2024-05-01T12:00:00''
        [\<lparr>author = ''TechLead'', is_final_response = True, parts = [approve_text]\<rparr>] prose_state)
   = Inr (JStr ''Review completed'')
   \<and> map_sum id final_decision
     (run_review sample_loads ''acme'' ''shop'' 7 ''2024-05-01T12:00:00''
        [\<lparr>author = ''TechLead'', is_final_response = True, parts = [approve_text]\<rparr>] prose_state)
   = Inr (JStr ''APPROVE'')"
proof -
  let ?ev = "[\<lparr>author = ''TechLead'', is_final_response = True, parts = [approve_text]\<rparr>]"
  have "map_sum id (length \<circ> specialist_results)
      (review_loop sample_loads ''acme'' ''shop'' 7 scored_state specialist_agents init_acc) = Inr 5"
    by code_simp
  from map_sum_InrD [OF this] obtain acc1 where
    l1: "review_loop sample_loads ''acme'' ''shop'' 7 scored_state specialist_agents init_acc
          = Inr acc1" by blast
  have "map_sum id (length \<circ> specialist_results)
      (review_loop sample_loads ''acme'' ''shop'' 7 prose_state specialist_agents init_acc) = Inr 1"
    by code_simp
  from map_sum_InrD [OF this] obtain acc2 where
    l2: "review_loop sample_loads ''acme'' ''shop'' 7 prose_state specialist_agents init_acc
          = Inr acc2" by blast
  have u: "unparseable sample_loads (synthesis_text [] scored_state)"
    and t: "synthesis_text [] scored_state = prose_text"
    by code_simp+
  have p: "parse_json_response sample_loads (synthesis_text ?ev prose_state)
      = Inr (JObj [(''auto_approve'', JBool True), (''final_decision'', JStr ''APPROVE'')])"
    by code_simp
  from synthesis_defaults [OF l1, of "[]" "''2024-05-01T12:00:00''"] u t obtain r1 where
    r1: "run_review sample_loads ''acme'' ''shop'' 7 ''2024-05-01T12:00:00'' [] scored_state
          = Inr r1"
    "summary r1 = JStr prose_text" "next_steps r1 = JArr []"
    by auto
  from synthesis_defaults [OF l2, of ?ev "''2024-05-01T12:00:00''"] p obtain r2 where
    r2: "run_review sample_loads ''acme'' ''shop'' 7 ''2024-05-01T12:00:00'' ?ev prose_state
          = Inr r2"
    "summary r2 = get [(''auto_approve'', JBool True), (''final_decision'', JStr ''APPROVE'')]
        ''summary'' (JStr ''Review completed'')"
    "final_decision r2 =
       (if findings_total (specialist_reviews r2) = 0 \<and> data_access_status r2 = ''all_success''
        then JStr ''APPROVE''
        else get [(''auto_approve'', JBool True), (''final_decision'', JStr ''APPROVE'')]
               ''final_decision'' (JStr ''COMMENT''))"
    by blast
  from r2 have "summary r2 = JStr ''Review completed''" "final_decision r2 = JStr ''APPROVE''"
    by (simp_all add: get_def)
  with r1 r2(1) show ?thesis by simp
qed

text \<open>
  The claim as stated fails for \<open>summary\<close>: with no \<open>tech_lead_synthesis\<close> in the session
  and no final response, the report's summary is the empty text, not the default
  \<open>Review completed\<close>. It also fails where the decoder meets a limit: with a synthesis
  that holds arrays nested 100000 deep, \<^verbatim>\<open>run_review\<close> raises \<^verbatim>\<open>RecursionError\<close>.
\<close>

theorem synthesis_summary_counterexample:
  "map_sum id summary
     (run_review sample_loads ''acme'' ''shop'' 7 ''2024-05-01T12:00:00'' [] prose_state)
   = Inr (JStr [])
   \<and> prose_state ''tech_lead_synthesis'' = None
   \<and> final_response_of [] = []
   \<and> run_review limited_loads ''acme'' ''shop'' 7 ''2024-05-01T12:00:00'' []
        [''tech_lead_synthesis'' \<mapsto> nested_text 100000]
   = Inl RecursionError"
proof -
  have a: "map_sum id summary
     (run_review sample_loads ''acme'' ''shop'' 7 ''2024-05-01T12:00:00'' [] prose_state)
   = Inr (JStr [])
   \<and> prose_state ''tech_lead_synthesis'' = None
   \<and> final_response_of [] = []"
    by code_simp
  have t: "synthesis_text [] [''tech_lead_synthesis'' \<mapsto> nested_text 100000] = nested_text 100000"
    by (simp add: synthesis_text_def tech_lead_text_of_def)
  have "run_review limited_loads ''acme'' ''shop'' 7 ''2024-05-01T12:00:00'' []
        [''tech_lead_synthesis'' \<mapsto> nested_text 100000]
   = Inl RecursionError"
    by (rule run_review_synthesis_raises(1) [OF no_specialist_output])
       (simp only: t parse_limits)
  with a show ?thesis by simp
qed

section \<open>The tech lead runs after the parallel review\<close>

lemma run_async_impl_Phase1:
  "run_async_impl parallel_review tech_lead_run tech_lead (Phase1 g) s =
     (case parallel_review g s of
        (Yield ev g', s') \<Rightarrow> (Yield ev (Phase1 g'), s')
      | (Raise, s') \<Rightarrow> (Raise, s')
      | (Stop, s') \<Rightarrow>
          (case tech_lead (tech_lead_run s') s' of
             (Yield ev t', s'') \<Rightarrow> (Yield ev (Phase2 t'), s'')
           | (Raise, s'') \<Rightarrow> (Raise, s'')
           | (Stop, s'') \<Rightarrow> (Stop, s'')))"
  by (simp add: run_async_impl_def)

lemma run_async_impl_Phase2:
  "run_async_impl parallel_review tech_lead_run tech_lead (Phase2 t) s =
     (case tech_lead t s of
        (Yield ev t', s') \<Rightarrow> (Yield ev (Phase2 t'), s')
      | (Raise, s') \<Rightarrow> (Raise, s')
      | (Stop, s') \<Rightarrow> (Stop, s'))"
  by (simp add: run_async_impl_def)

lemma consume_phase2:
  "consume n (run_async_impl parallel_review tech_lead_run tech_lead) (Phase2 t) s
     = consume n tech_lead t s"
  by (induction n arbitrary: t s)
     (auto simp: run_async_impl_Phase2 split: prod.splits step.splits)

text \<open>
  Claim C7. What a consumer gets from the orchestrator in \<open>n\<close> resumptions is what it gets
  from the parallel review in \<open>n\<close> resumptions, followed, only if the parallel review was
  exhausted within them, by what the tech lead yields in the remaining resumptions; and the
  tech lead's run is created from the session as the exhausted parallel review left it.
  So every event of the parallel stage precedes every event of the tech lead, and while the
  parallel stage is pending, or when it raised, there is no tech lead event.
\<close>

theorem tech_lead_after_parallel:
  "consume n (run_async_impl parallel_review tech_lead_run tech_lead) (Phase1 g) s =
     (case consume n parallel_review g s of
        (evs, out, s') \<Rightarrow>
          (case out of
             Exhausted \<Rightarrow>
               (case consume (n - length evs) tech_lead (tech_lead_run s') s' of
                  (evs', out', s'') \<Rightarrow> (evs @ evs', out', s''))
           | Pending \<Rightarrow> (evs, Pending, s')
           | Raised \<Rightarrow> (evs, Raised, s')))"
proof (induction n arbitrary: g s)
  case 0
  show ?case by simp
next
  case (Suc n)
  obtain st s1 where p: "parallel_review g s = (st, s1)" by (cases "parallel_review g s")
  show ?case
  proof (cases st)
    case (Yield ev g')
    obtain evs out s' where c: "consume n parallel_review g' s1 = (evs, out, s')"
      by (cases "consume n parallel_review g' s1") auto
    have step: "run_async_impl parallel_review tech_lead_run tech_lead (Phase1 g) s
        = (Yield ev (Phase1 g'), s1)"
      using p Yield by (simp add: run_async_impl_Phase1)
    show ?thesis
      using Suc.IH [of g' s1] p Yield c step
      by (cases out) (auto split: prod.splits)
  next
    case Stop
    obtain st2 s2 where t: "tech_lead (tech_lead_run s1) s1 = (st2, s2)"
      by (cases "tech_lead (tech_lead_run s1) s1")
    show ?thesis
      using p Stop t
      by (cases st2) (auto simp: run_async_impl_Phase1 consume_phase2 split: prod.splits)
  next
    case Raise
    then show ?thesis using p by (simp add: run_async_impl_Phase1)
  qed
qed

theorem tech_lead_after_parallel_witness:
  "consume 5 (run_async_impl sample_parallel sample_tech_lead_run sample_tech_lead)
     (Phase1 sample_events) []
   = (sample_events
        @ [\<lparr>author = ''TechLead'', is_final_response = True,
            parts = [''SecurityEngineer, ProductOwner'']\<rparr>],
      Exhausted, [''SecurityEngineer'', ''ProductOwner''])
   \<and> consume 2 (run_async_impl sample_parallel sample_tech_lead_run sample_tech_lead)
     (Phase1 sample_events) []
   = (sample_events, Pending, [''SecurityEngineer'', ''ProductOwner''])"
proof -
  have a: "consume 5 sample_parallel sample_events []
      = (sample_events, Exhausted, [''SecurityEngineer'', ''ProductOwner''])"
    by code_simp
  have b: "consume (5 - length sample_events) sample_tech_lead
       (sample_tech_lead_run [''SecurityEngineer'', ''ProductOwner''])
       [''SecurityEngineer'', ''ProductOwner'']
      = ([\<lparr>author = ''TechLead'', is_final_response = True,
            parts = [''SecurityEngineer, ProductOwner'']\<rparr>],
         Exhausted, [''SecurityEngineer'', ''ProductOwner''])"
    by code_simp
  have c: "consume 2 sample_parallel sample_events []
      = (sample_events, Pending, [''SecurityEngineer'', ''ProductOwner''])"
    by code_simp
  show ?thesis
    using a b c
      tech_lead_after_parallel [of 5 sample_parallel sample_tech_lead_run sample_tech_lead
        sample_events "[]"]
      tech_lead_after_parallel [of 2 sample_parallel sample_tech_lead_run sample_tech_lead
        sample_events "[]"]
    by simp
qed

end
